theory Spec2Isabelle
  imports Complex_Main
begin

section \<open>RateLimiter (src/unnamed/part_000)\<close>

text \<open>
  The class keeps \<open>requests : Map<string, number[]>\<close>. The map is a partial function
  from identifiers to the list of recorded timestamps. \<open>Date.now()\<close> is the parameter
  \<open>now\<close> (milliseconds since the epoch, an integer); \<open>limit\<close> and \<open>windowMs\<close> are
  integers.
\<close>

type_synonym limiter = "string \<rightharpoonup> int list"

definition checkLimit :: "limiter \<Rightarrow> string \<Rightarrow> int \<Rightarrow> int \<Rightarrow> int \<Rightarrow> bool \<times> limiter" where
  "checkLimit requests identifier limit windowMs now =
     (let windowStart = now - windowMs;
          requests1 = (if requests identifier = None
                       then requests(identifier \<mapsto> []) else requests);
          reqs = (case requests1 identifier of Some xs \<Rightarrow> xs | None \<Rightarrow> []);
          recentRequests = filter (\<lambda>time. time > windowStart) reqs;
          requests2 = requests1(identifier \<mapsto> recentRequests)
      in if int (length recentRequests) < limit
         then (True, requests2(identifier \<mapsto> recentRequests @ [now]))
         else (False, requests2))"

text \<open>The timestamps recorded for an identifier (none when the identifier is unknown).\<close>

definition stored :: "limiter \<Rightarrow> string \<Rightarrow> int list" where
  "stored requests identifier = (case requests identifier of None \<Rightarrow> [] | Some xs \<Rightarrow> xs)"

text \<open>
  A sequence of calls \<open>checkLimit(identifier, limit, windowMs)\<close> made at the clock
  readings \<open>ts\<close>, in that order: the answers and the final map.
\<close>

fun checkLimits :: "limiter \<Rightarrow> string \<Rightarrow> int \<Rightarrow> int \<Rightarrow> int list \<Rightarrow> bool list \<times> limiter" where
  "checkLimits requests identifier limit windowMs [] = ([], requests)"
| "checkLimits requests identifier limit windowMs (now # ts) =
     (case checkLimit requests identifier limit windowMs now of
        (ok, requests') \<Rightarrow>
          (case checkLimits requests' identifier limit windowMs ts of
             (oks, requests'') \<Rightarrow> (ok # oks, requests'')))"

text \<open>
  The number of allowed calls of a trace (clock reading, answer) whose clock reading lies
  in the span of \<open>w\<close> milliseconds that starts at \<open>s\<close>, that is \<open>s \<le> t < s + w\<close>.
\<close>

definition allowedInSpan :: "int \<Rightarrow> int \<Rightarrow> (int \<times> bool) list \<Rightarrow> nat" where
  "allowedInSpan s w trace = length (filter (\<lambda>(t, ok). ok \<and> s \<le> t \<and> t < s + w) trace)"

section \<open>Dates of the scheduler (the built-in \<open>Date\<close> used by src/Dash/index.js)\<close>

text \<open>
  \<open>calculateNextSchedule\<close> calls \<open>getDate\<close>, \<open>setDate\<close>, \<open>getMonth\<close> and \<open>setMonth\<close> of the
  built-in \<open>Date\<close>. They are modelled by the abstract operations of the language
  standard, over time values in milliseconds since the epoch. The local time zone is the
  parameter \<open>tz\<close>: \<open>tz t True\<close> is the offset at the UTC time \<open>t\<close>, \<open>tz t False\<close> the offset
  at the local time \<open>t\<close> (the standard's \<open>LocalTZA(t, isUTC)\<close>).
\<close>

type_synonym tza = "int \<Rightarrow> bool \<Rightarrow> int"

definition msPerDay :: int where
  "msPerDay = 86400000"

definition Day :: "int \<Rightarrow> int" where
  "Day t = t div msPerDay"

definition TimeWithinDay :: "int \<Rightarrow> int" where
  "TimeWithinDay t = t mod msPerDay"

definition DaysInYear :: "int \<Rightarrow> int" where
  "DaysInYear y =
     (if y mod 4 \<noteq> 0 then 365
      else if y mod 100 \<noteq> 0 then 366
      else if y mod 400 \<noteq> 0 then 365
      else 366)"

definition DayFromYear :: "int \<Rightarrow> int" where
  "DayFromYear y = 365 * (y - 1970) + (y - 1969) div 4 - (y - 1901) div 100 + (y - 1601) div 400"

text \<open>
  \<open>YearFromTime(t)\<close> is the largest year \<open>y\<close> with \<open>DayFromYear(y) \<le> Day(t)\<close>. It is computed
  from the estimate \<open>1970 + Day(t) / 365.2425\<close>, which is off by one year at most
  (lemma \<open>YearFromTime_correct\<close>).
\<close>

definition YearFromTime :: "int \<Rightarrow> int" where
  "YearFromTime t =
     (let d = Day t; y = 1970 + (400 * d) div 146097
      in if DayFromYear (y + 1) \<le> d then y + 1
         else if DayFromYear y \<le> d then y
         else y - 1)"

definition leapDays :: "int \<Rightarrow> int" where
  "leapDays y = (if DaysInYear y = 366 then 1 else 0)"

definition InLeapYear :: "int \<Rightarrow> int" where
  "InLeapYear t = leapDays (YearFromTime t)"

definition DayWithinYear :: "int \<Rightarrow> int" where
  "DayWithinYear t = Day t - DayFromYear (YearFromTime t)"

text \<open>The number of days of a year before its month \<open>m\<close> (0 is January), \<open>l\<close> being 1 in a leap year.\<close>

definition monthStart :: "int \<Rightarrow> int \<Rightarrow> int" where
  "monthStart m l =
     (if m = 0 then 0 else if m = 1 then 31 else if m = 2 then 59 + l
      else if m = 3 then 90 + l else if m = 4 then 120 + l else if m = 5 then 151 + l
      else if m = 6 then 181 + l else if m = 7 then 212 + l else if m = 8 then 243 + l
      else if m = 9 then 273 + l else if m = 10 then 304 + l else 334 + l)"

definition MonthFromTime :: "int \<Rightarrow> int" where
  "MonthFromTime t =
     (let d = DayWithinYear t; l = InLeapYear t
      in if d < 31 then 0 else if d < 59 + l then 1 else if d < 90 + l then 2
         else if d < 120 + l then 3 else if d < 151 + l then 4 else if d < 181 + l then 5
         else if d < 212 + l then 6 else if d < 243 + l then 7 else if d < 273 + l then 8
         else if d < 304 + l then 9 else if d < 334 + l then 10 else 11)"

definition DateFromTime :: "int \<Rightarrow> int" where
  "DateFromTime t = DayWithinYear t - monthStart (MonthFromTime t) (InLeapYear t) + 1"

text \<open>
  \<open>MakeDay(year, month, date)\<close>: the day number of the first day of the month
  \<open>month modulo 12\<close> of the year \<open>year + floor(month / 12)\<close>, plus \<open>date - 1\<close>.
\<close>

definition MakeDay :: "int \<Rightarrow> int \<Rightarrow> int \<Rightarrow> int" where
  "MakeDay year month date =
     (let ym = year + month div 12; mn = month mod 12
      in DayFromYear ym + monthStart mn (leapDays ym) + date - 1)"

definition MakeDate :: "int \<Rightarrow> int \<Rightarrow> int" where
  "MakeDate day time = day * msPerDay + time"

definition LocalTime :: "tza \<Rightarrow> int \<Rightarrow> int" where
  "LocalTime tz t = t + tz t True"

definition UTC :: "tza \<Rightarrow> int \<Rightarrow> int" where
  "UTC tz t = t - tz t False"

text \<open>\<open>TimeClip\<close>: a time value beyond 8.64e15 milliseconds is \<open>NaN\<close>, here \<open>None\<close>.\<close>

definition TimeClip :: "int \<Rightarrow> int option" where
  "TimeClip time = (if \<bar>time\<bar> > 8640000000000000 then None else Some time)"

definition getDate :: "tza \<Rightarrow> int \<Rightarrow> int" where
  "getDate tz t = DateFromTime (LocalTime tz t)"

definition getMonth :: "tza \<Rightarrow> int \<Rightarrow> int" where
  "getMonth tz t = MonthFromTime (LocalTime tz t)"

definition setDate :: "tza \<Rightarrow> int \<Rightarrow> int \<Rightarrow> int option" where
  "setDate tz t dt =
     (let lt = LocalTime tz t;
          newDate = MakeDate (MakeDay (YearFromTime lt) (MonthFromTime lt) dt) (TimeWithinDay lt)
      in TimeClip (UTC tz newDate))"

definition setMonth :: "tza \<Rightarrow> int \<Rightarrow> int \<Rightarrow> int option" where
  "setMonth tz t m =
     (let lt = LocalTime tz t;
          newDate = MakeDate (MakeDay (YearFromTime lt) m (DateFromTime lt)) (TimeWithinDay lt)
      in TimeClip (UTC tz newDate))"

text \<open>The number of days of the month \<open>m\<close> (0 is January) of the year \<open>y\<close>.\<close>

definition DaysInMonth :: "int \<Rightarrow> int \<Rightarrow> int" where
  "DaysInMonth y m =
     (if m = 1 then 28 + leapDays y
      else if m = 3 \<or> m = 5 \<or> m = 8 \<or> m = 10 then 30
      else 31)"

section \<open>Calendar dates, as the claims read them\<close>

text \<open>
  The proleptic Gregorian calendar, written without the operations above: leap years,
  the lengths of the twelve months, the number of days from 1970-01-01 to the first day
  of a year (365 days a year plus the leap years before it), and from these the time
  value of a calendar date. \<open>civilTime y mo d tod\<close> is the day \<open>d\<close> (from 1) of the month \<open>mo\<close>
  (0 is January) of the year \<open>y\<close>, \<open>tod\<close> milliseconds after midnight; a day past the end of
  the month counts on into the next month.
\<close>

definition leapYear :: "int \<Rightarrow> bool" where
  "leapYear y = (y mod 4 = 0 \<and> (y mod 100 \<noteq> 0 \<or> y mod 400 = 0))"

definition monthLengths :: "int \<Rightarrow> int list" where
  "monthLengths y = [31, if leapYear y then 29 else 28, 31, 30, 31, 30, 31, 31, 30, 31, 30, 31]"

definition daysBeforeYear :: "int \<Rightarrow> int" where
  "daysBeforeYear y =
     365 * (y - 1970) + ((y - 1) div 4 - (y - 1) div 100 + (y - 1) div 400) - 477"

definition civilDay :: "int \<Rightarrow> nat \<Rightarrow> int \<Rightarrow> int" where
  "civilDay y mo d = daysBeforeYear y + sum_list (take mo (monthLengths y)) + d - 1"

definition civilTime :: "int \<Rightarrow> nat \<Rightarrow> int \<Rightarrow> int \<Rightarrow> int" where
  "civilTime y mo d tod = civilDay y mo d * msPerDay + tod"

text \<open>A date of the calendar: the month exists, the day exists in it, the time is within the day.\<close>

definition validCivil :: "int \<Rightarrow> nat \<Rightarrow> int \<Rightarrow> int \<Rightarrow> bool" where
  "validCivil y mo d tod =
     (mo < 12 \<and> 1 \<le> d \<and> d \<le> monthLengths y ! mo \<and> 0 \<le> tod \<and> tod < msPerDay)"

text \<open>The next calendar month: January of the next year after December.\<close>

definition monthAfter :: "int \<times> nat \<Rightarrow> int \<times> nat" where
  "monthAfter ym = (if snd ym = 11 then (fst ym + 1, 0) else (fst ym, snd ym + 1))"

section \<open>Scheduler of the dashboard (src/Dash/index.js)\<close>

text \<open>
  The objects of \<open>WebhookManager\<close>. A schedule's \<open>scheduleTime\<close> is a date string in the
  source; the model keeps the time value it denotes. Schedule objects are mutated in
  place (\<open>toggleSchedule\<close>, \<open>executeSchedule\<close>) while \<open>this.schedules\<close> holds references, so
  the model has a store \<open>objects\<close> from references to schedule objects and
  \<open>schedules\<close> is a list of references. The fields that the scheduler does not read
  (created, description, avatar, username, an activity's timestamp) are left out.
\<close>

record webhook =
  wid :: string
  wname :: string
  url :: string
  wactive :: bool

record schedule =
  sid :: string
  webhookId :: string
  message :: string
  scheduleTime :: int
  repeat :: string
  sname :: string
  active :: bool

record activity =
  atype :: string
  amessage :: string

text \<open>A call of \<open>fetch\<close>: the target and the \<open>content\<close> of the JSON body.\<close>

record request =
  target :: string
  content :: string

text \<open>An \<open>executeSchedule\<close> call suspended at \<open>await fetch(...)\<close>: its arguments and the webhook it found.\<close>

record pending =
  p_schedule :: nat
  p_webhook :: webhook

text \<open>
  The state: the fields of the manager, then what the runtime holds: the log of the
  calls of \<open>fetch\<close> and the suspended \<open>executeSchedule\<close> calls.
\<close>

record manager =
  webhooks :: "webhook list"
  objects :: "nat \<Rightarrow> schedule"
  schedules :: "nat list"
  activities :: "activity list"
  fetches :: "request list"
  awaiting :: "pending list"

text \<open>What \<open>await fetch(...)\<close> gives: a rejection, or a response with its status.\<close>

datatype fetch_result = FetchRejected | Response int

definition response_ok :: "int \<Rightarrow> bool" where
  "response_ok status = (200 \<le> status \<and> status \<le> 299)"

definition quoted :: "string \<Rightarrow> string" where
  "quoted s = [CHR 0x22] @ s @ [CHR 0x22]"

definition addActivity :: "manager \<Rightarrow> string \<Rightarrow> string \<Rightarrow> manager" where
  "addActivity m type msg =
     (let pushed = activities m @ [\<lparr>atype = type, amessage = msg\<rparr>]
      in m\<lparr>activities := (if length pushed > 100 then drop (length pushed - 100) pushed
                            else pushed)\<rparr>)"

text \<open>
  \<open>calculateNextSchedule\<close>: \<open>None\<close> is \<open>null\<close>; \<open>Some None\<close> is a \<open>Date\<close> whose time value is
  \<open>NaN\<close>; \<open>Some (Some t)\<close> is the date with the time value \<open>t\<close>.
\<close>

definition calculateNextSchedule :: "tza \<Rightarrow> schedule \<Rightarrow> int option option" where
  "calculateNextSchedule tz s =
     (let current = scheduleTime s
      in if repeat s = ''daily'' then Some (setDate tz current (getDate tz current + 1))
         else if repeat s = ''weekly'' then Some (setDate tz current (getDate tz current + 7))
         else if repeat s = ''monthly'' then Some (setMonth tz current (getMonth tz current + 1))
         else None)"

text \<open>
  \<open>executeSchedule\<close> up to its \<open>await\<close>: look the webhook up; return when there is none;
  otherwise call \<open>fetch\<close> and suspend.
\<close>

definition executeSchedule_call :: "manager \<Rightarrow> nat \<Rightarrow> manager" where
  "executeSchedule_call m r =
     (let s = objects m r
      in case find (\<lambda>w. wid w = webhookId s) (webhooks m) of
           None \<Rightarrow> m
         | Some w \<Rightarrow>
             m\<lparr>fetches := fetches m @ [\<lparr>target = url w, content = message s\<rparr>],
               awaiting := awaiting m @ [\<lparr>p_schedule = r, p_webhook = w\<rparr>]\<rparr>)"

text \<open>
  \<open>executeSchedule\<close> from its \<open>await\<close> on, with what \<open>fetch\<close> gave. An error thrown inside
  \<open>try\<close> (the rejection of \<open>fetch\<close>, the \<open>HTTP status\<close> error, the \<open>RangeError\<close> of
  \<open>toISOString\<close> on an invalid date) ends in \<open>catch\<close>, which records \<open>message_failed\<close>.
\<close>

definition executeSchedule_resume :: "tza \<Rightarrow> manager \<Rightarrow> pending \<Rightarrow> fetch_result \<Rightarrow> manager" where
  "executeSchedule_resume tz m p res =
     (let m0 = m\<lparr>awaiting := remove1 p (awaiting m)\<rparr>;
          wn = wname (p_webhook p);
          failed = (\<lambda>m'. addActivity m' ''message_failed''
                      (''Failed to send scheduled message via '' @ quoted wn))
      in case res of
           FetchRejected \<Rightarrow> failed m0
         | Response status \<Rightarrow>
             if response_ok status then
               (let m1 = addActivity m0 ''message_sent''
                           (''Scheduled message sent via '' @ quoted wn);
                    s = objects m1 (p_schedule p)
                in if repeat s \<noteq> ''once'' then
                     (case calculateNextSchedule tz s of
                        None \<Rightarrow> m1
                      | Some None \<Rightarrow> failed m1
                      | Some (Some t) \<Rightarrow>
                          m1\<lparr>objects := (objects m1)(p_schedule p := s\<lparr>scheduleTime := t\<rparr>)\<rparr>)
                   else m1\<lparr>schedules := filter (\<lambda>r. sid (objects m1 r) \<noteq> sid s) (schedules m1)\<rparr>)
             else failed m0)"

text \<open>
  One run of the callback of \<open>startScheduleChecker\<close> at the clock reading \<open>now\<close>:
  \<open>executeSchedule\<close> is called for every schedule that is active and due.
\<close>

definition tick :: "int \<Rightarrow> manager \<Rightarrow> manager" where
  "tick now m =
     fold (\<lambda>r m'. if active (objects m' r) \<and> scheduleTime (objects m' r) \<le> now
                   then executeSchedule_call m' r else m')
          (schedules m) m"

text \<open>The loop of \<open>tick\<close>, over any list of references.\<close>

definition tickOver :: "int \<Rightarrow> nat list \<Rightarrow> manager \<Rightarrow> manager" where
  "tickOver now rs m =
     fold (\<lambda>r m'. if active (objects m' r) \<and> scheduleTime (objects m' r) \<le> now
                   then executeSchedule_call m' r else m') rs m"

text \<open>The count of failed messages that \<open>updateStats\<close> shows on the dashboard.\<close>

definition failedMessages :: "manager \<Rightarrow> nat" where
  "failedMessages m = length (filter (\<lambda>a. atype a = ''message_failed'') (activities m))"

text \<open>The number of suspended \<open>executeSchedule\<close> calls (dispatches in flight) of a schedule.\<close>

definition inFlight :: "manager \<Rightarrow> nat \<Rightarrow> nat" where
  "inFlight m r = length (filter (\<lambda>p. p_schedule p = r) (awaiting m))"

text \<open>
  The claims' reading of the recurrence rules, in days: one day, seven days, one
  calendar month, which is the length of the month that holds the due time \<open>T\<close> in local
  time (the same day of the next month when that day exists).
\<close>

definition recurrenceDays :: "tza \<Rightarrow> string \<Rightarrow> int \<Rightarrow> int" where
  "recurrenceDays tz rep T =
     (if rep = ''daily'' then 1
      else if rep = ''weekly'' then 7
      else DaysInMonth (YearFromTime (LocalTime tz T)) (MonthFromTime (LocalTime tz T)))"

text \<open>
  A manager with one webhook and one schedule, for the concrete runs below: the
  schedule is due at 2025-11-13T10:30:00Z; the time zone is UTC.
\<close>

definition utcZone :: tza where
  "utcZone = (\<lambda>t isUTC. 0)"

definition hook1 :: webhook where
  "hook1 = \<lparr>wid = ''w1'', wname = ''Alerts'', url = ''https://discord.com/api/webhooks/1/x'',
             wactive = True\<rparr>"

definition sched1 :: "string \<Rightarrow> string \<Rightarrow> schedule" where
  "sched1 rep hookId =
     \<lparr>sid = ''s1'', webhookId = hookId, message = ''hello'', scheduleTime = 1763029800000,
      repeat = rep, sname = ''Scheduled: hello...'', active = True\<rparr>"

definition manager1 :: "string \<Rightarrow> string \<Rightarrow> manager" where
  "manager1 rep hookId =
     \<lparr>webhooks = [hook1], objects = (\<lambda>r. sched1 rep hookId), schedules = [0],
      activities = [], fetches = [], awaiting = []\<rparr>"

definition pending1 :: pending where
  "pending1 = \<lparr>p_schedule = 0, p_webhook = hook1\<rparr>"

section \<open>Dispatcher (\<open>sendDiscordWebhook\<close>, src/System/deepseek_typescript_20251113_588030.ts)\<close>

text \<open>
  An error object has a name and a message. What the network does with a request is an
  input of the model: a response after so many milliseconds, a transport failure after
  so many milliseconds, or nothing at all. A response carries its status, its status
  text and what \<open>response.json()\<close> does: it gives the parsed body, it rejects with an
  error (a \<open>SyntaxError\<close> when the body is empty or is not JSON), or it never settles.
\<close>

datatype js_error = JsError (err_name: string) (err_message: string)

datatype 'b body_read = Parsed 'b | ReadFails js_error | ReadHangs

datatype 'b http_response =
  HttpResponse (status: nat) (statusText: string) (json: "'b body_read")

datatype 'b fetch_behaviour =
    Responds nat "'b http_response"
  | Fails nat js_error
  | Hangs

text \<open>
  \<open>fetch\<close> with the signal of an \<open>AbortController\<close> that a timer aborts after \<open>deadline\<close>
  milliseconds: when \<open>fetch\<close> has not settled before, it rejects with an error named
  \<open>AbortError\<close> (what settles at the deadline exactly is taken to lose the race).
\<close>

definition fetch_with_abort :: "nat \<Rightarrow> 'b fetch_behaviour \<Rightarrow> js_error + 'b http_response" where
  "fetch_with_abort deadline b =
     (case b of
        Responds d r \<Rightarrow> if d < deadline then Inr r
                        else Inl (JsError ''AbortError'' ''The operation was aborted.'')
      | Fails d e \<Rightarrow> if d < deadline then Inl e
                     else Inl (JsError ''AbortError'' ''The operation was aborted.'')
      | Hangs \<Rightarrow> Inl (JsError ''AbortError'' ''The operation was aborted.''))"

definition http_ok :: "nat \<Rightarrow> bool" where
  "http_ok st = (200 \<le> st \<and> st \<le> 299)"

fun decimal :: "nat \<Rightarrow> string" where
  "decimal n = (if n < 10 then [''0123456789'' ! n]
                else decimal (n div 10) @ [''0123456789'' ! (n mod 10)])"

declare decimal.simps [simp del]

text \<open>
  \<open>sendDiscordWebhook(url, data)\<close>; \<open>net\<close> is the network. The result is how the returned
  promise settles: \<open>Some (Inr body)\<close> when it resolves, \<open>Some (Inl error)\<close> when it rejects,
  \<open>None\<close> when it never settles. Every error thrown in the \<open>try\<close> block goes through the
  \<open>catch\<close> block. The timer is cleared as soon as \<open>fetch\<close> has given the response, so the
  read of the body by \<open>response.json()\<close> has no deadline.
\<close>

definition sendDiscordWebhook ::
  "(string \<Rightarrow> 'a \<Rightarrow> 'b fetch_behaviour) \<Rightarrow> string \<Rightarrow> 'a \<Rightarrow> (js_error + 'b) option" where
  "sendDiscordWebhook net u data =
     (let catch = (\<lambda>error. if err_name error = ''AbortError''
                     then Some (Inl (JsError ''Error''
                            ''Request timeout - webhook took too long to respond''))
                     else Some (Inl error))
      in case fetch_with_abort 10000 (net u data) of
           Inl error \<Rightarrow> catch error
         | Inr response \<Rightarrow>
             if \<not> http_ok (status response)
             then catch (JsError ''Error''
                    (''HTTP '' @ decimal (status response) @ '': '' @ statusText response))
             else (case json response of
                     Parsed body \<Rightarrow> Some (Inr body)
                   | ReadFails error \<Rightarrow> catch error
                   | ReadHangs \<Rightarrow> None))"

text \<open>
  A network on which every request is answered after 150 milliseconds with the status 204
  and an empty body, on which \<open>response.json()\<close> rejects.
\<close>

definition noContentNet :: "string \<Rightarrow> string \<Rightarrow> string fetch_behaviour" where
  "noContentNet u data =
     Responds 150 (HttpResponse 204 ''No Content''
       (ReadFails (JsError ''SyntaxError'' ''Unexpected end of JSON input'')))"

section \<open>Analytics queue (\<open>AnalyticsService\<close>, same file)\<close>

text \<open>
  An event, without the two fields read from the browser (user agent, language). The
  state holds the fields of the service, the events stored under \<open>whm_analytics\<close> in
  \<open>localStorage\<close>, and the \<open>flush\<close> calls suspended at their \<open>await\<close>, each with its batch
  \<open>events\<close> and the stored events \<open>existing\<close> it read.
\<close>

record analytics_event =
  event :: string
  properties :: string
  timestamp :: int

record flush_call =
  events :: "analytics_event list"
  existing :: "analytics_event list"

record analytics =
  enabled :: bool
  queue :: "analytics_event list"
  whm_analytics :: "analytics_event list"
  flushing :: "flush_call list"

text \<open>\<open>flush\<close> up to its \<open>await\<close>: nothing on an empty queue; otherwise the queue is copied and emptied.\<close>

definition flush :: "analytics \<Rightarrow> analytics" where
  "flush a =
     (if length (queue a) = 0 then a
      else a\<lparr>queue := [],
             flushing := flushing a @ [\<lparr>events = queue a, existing = whm_analytics a\<rparr>]\<rparr>)"

text \<open>
  \<open>flush\<close> after its \<open>await\<close>. \<open>written\<close> tells whether the \<open>try\<close> block ran to its end (the
  write to \<open>localStorage\<close> went through); when it threw, the \<open>catch\<close> block puts the batch
  back with \<open>unshift\<close>.
\<close>

definition flush_resume :: "analytics \<Rightarrow> flush_call \<Rightarrow> bool \<Rightarrow> analytics" where
  "flush_resume a f written =
     (let a0 = a\<lparr>flushing := remove1 f (flushing a)\<rparr>;
          joined = existing f @ events f;
          updated = drop (length joined - 1000) joined
      in if written then a0\<lparr>whm_analytics := updated\<rparr>
         else a0\<lparr>queue := events f @ queue a0\<rparr>)"

definition track :: "analytics \<Rightarrow> string \<Rightarrow> string \<Rightarrow> int \<Rightarrow> analytics" where
  "track a name props now =
     (if \<not> enabled a then a
      else let a1 = a\<lparr>queue := queue a @ [\<lparr>event = name, properties = props, timestamp = now\<rparr>]\<rparr>
           in if name \<in> set [''error'', ''pageview'', ''webhook_created''] then flush a1 else a1)"

text \<open>An event with an empty property bag, for the concrete runs below.\<close>

definition ev :: "string \<Rightarrow> int \<Rightarrow> analytics_event" where
  "ev name t = \<lparr>event = name, properties = ''{}'', timestamp = t\<rparr>"

section \<open>Statistics\<close>

text \<open>
  The outcome that \<open>testWebhook\<close>, \<open>sendMessage\<close> and \<open>handleScheduledTask\<close> hand to
  \<open>updateWebhookStats\<close> and \<open>updateScheduleStats\<close> once the send has settled: the measured
  time after a send that returned, the time 0 after one that threw.
\<close>

record outcome =
  success :: bool
  responseTime :: real

definition reportedOutcome :: "js_error + 'b \<Rightarrow> real \<Rightarrow> outcome" where
  "reportedOutcome sent elapsed =
     (case sent of
        Inr response \<Rightarrow> \<lparr>success = True, responseTime = elapsed\<rparr>
      | Inl error \<Rightarrow> \<lparr>success = False, responseTime = 0\<rparr>)"

record stats =
  totalCount :: nat
  successCount :: nat
  failureCount :: nat
  lastExecutedAt :: "int option"
  averageResponseTimeMs :: real

definition emptyStats :: stats where
  "emptyStats = \<lparr>totalCount = 0, successCount = 0, failureCount = 0, lastExecutedAt = None,
                  averageResponseTimeMs = 0\<rparr>"

text \<open>
  Modelled from the spec: \<open>updateWebhookStats\<close> and \<open>updateScheduleStats\<close> are called but
  not defined in the source files. The spec's \<open>record(stats, outcome)\<close>: the total goes up
  by one; the success count goes up on a success, the failure count otherwise; the time
  of the last execution is set; the average follows
  \<open>avg \<leftarrow> avg + (latency - avg) / totalCount\<close>, with the new total.
\<close>

definition recordOutcome :: "int \<Rightarrow> stats \<Rightarrow> outcome \<Rightarrow> stats" where
  "recordOutcome now st oc =
     (let total = totalCount st + 1
      in \<lparr>totalCount = total,
          successCount = (if success oc then successCount st + 1 else successCount st),
          failureCount = (if success oc then failureCount st else failureCount st + 1),
          lastExecutedAt = Some now,
          averageResponseTimeMs =
            averageResponseTimeMs st + (responseTime oc - averageResponseTimeMs st) / real total\<rparr>)"

text \<open>Recording a sequence of outcomes, oldest first; the statistics after each record.\<close>

definition recordAll :: "int \<Rightarrow> stats \<Rightarrow> outcome list \<Rightarrow> stats" where
  "recordAll now st ocs = foldl (recordOutcome now) st ocs"

fun averagesAfterEach :: "int \<Rightarrow> stats \<Rightarrow> outcome list \<Rightarrow> real list" where
  "averagesAfterEach now st [] = []"
| "averagesAfterEach now st (oc # ocs) =
     averageResponseTimeMs (recordOutcome now st oc)
       # averagesAfterEach now (recordOutcome now st oc) ocs"

section \<open>Properties of the rate limiter\<close>

subsection \<open>One call\<close>

lemma checkLimit_fst:
  "fst (checkLimit rq i L W now) =
     (int (length (filter (\<lambda>x. now - W < x) (stored rq i))) < L)"
  by (simp add: checkLimit_def stored_def Let_def split: option.splits)

lemma checkLimit_stored:
  "stored (snd (checkLimit rq i L W now)) i =
     (if int (length (filter (\<lambda>x. now - W < x) (stored rq i))) < L
      then filter (\<lambda>x. now - W < x) (stored rq i) @ [now]
      else filter (\<lambda>x. now - W < x) (stored rq i))"
  by (simp add: checkLimit_def stored_def Let_def split: option.splits)

lemma checkLimit_other:
  "j \<noteq> i \<Longrightarrow> stored (snd (checkLimit rq i L W now)) j = stored rq j"
  by (simp add: checkLimit_def stored_def Let_def split: option.splits)

lemma checkLimits_Cons:
  "checkLimits rq i L W (now # ts) =
     (fst (checkLimit rq i L W now) # fst (checkLimits (snd (checkLimit rq i L W now)) i L W ts),
      snd (checkLimits (snd (checkLimit rq i L W now)) i L W ts))"
  by (simp split: prod.splits)

declare checkLimits.simps(2) [simp del]

lemma length_checkLimits: "length (fst (checkLimits rq i L W ts)) = length ts"
  by (induction ts arbitrary: rq) (simp_all add: checkLimits_Cons)

subsection \<open>The window bound\<close>

lemma allowedInSpan_Cons:
  "allowedInSpan s W ((t, ok) # trace) =
     (if ok \<and> s \<le> t \<and> t < s + W then 1 else 0) + allowedInSpan s W trace"
  by (simp add: allowedInSpan_def)

lemma allowedInSpan_late:
  "\<forall>t \<in> set ts. s + W \<le> t \<Longrightarrow> allowedInSpan s W (zip ts bs) = 0"
proof -
  assume late: "\<forall>t \<in> set ts. s + W \<le> t"
  have "\<not> (ok \<and> s \<le> t \<and> t < s + W)" if "(t, ok) \<in> set (zip ts bs)" for t ok
    using late set_zip_leftD [OF that] by fastforce
  then have "filter (\<lambda>(t, ok). ok \<and> s \<le> t \<and> t < s + W) (zip ts bs) = []"
    by (auto simp: filter_empty_conv)
  then show ?thesis by (simp add: allowedInSpan_def)
qed

lemma filter_span_prune:
  assumes "now < s + W"
  shows "filter (\<lambda>x. s \<le> x) (filter (\<lambda>x. now - W < x) xs) = filter (\<lambda>x. s \<le> (x::int)) xs"
  using assms by (induction xs) auto

lemma allowedInSpan_bound:
  "sorted ts \<Longrightarrow>
   int (allowedInSpan s W (zip ts (fst (checkLimits rq i L W ts))))
     \<le> max 0 (L - int (length (filter (\<lambda>x. s \<le> x) (stored rq i))))"
proof (induction ts arbitrary: rq)
  case Nil
  then show ?case by (simp add: allowedInSpan_def)
next
  case (Cons now ts)
  let ?r = "filter (\<lambda>x. now - W < x) (stored rq i)"
  let ?rq = "snd (checkLimit rq i L W now)"
  let ?rest = "allowedInSpan s W (zip ts (fst (checkLimits ?rq i L W ts)))"
  from Cons.prems have sorted: "sorted ts" and later: "\<forall>t \<in> set ts. now \<le> t" by auto
  have IH: "int ?rest \<le> max 0 (L - int (length (filter (\<lambda>x. s \<le> x) (stored ?rq i))))"
    using Cons.IH [OF sorted] .
  show ?case
  proof (cases "now < s + W")
    case False
    then have "\<forall>t \<in> set (now # ts). s + W \<le> t" using later by auto
    then have "allowedInSpan s W (zip (now # ts) (fst (checkLimits rq i L W (now # ts)))) = 0"
      by (rule allowedInSpan_late)
    then show ?thesis by simp
  next
    case True
    have keep: "filter (\<lambda>x. s \<le> x) ?r = filter (\<lambda>x. s \<le> x) (stored rq i)"
      using True by (rule filter_span_prune)
    have m_le: "length (filter (\<lambda>x. s \<le> x) (stored rq i)) \<le> length ?r"
      using length_filter_le [of "\<lambda>x. s \<le> x" ?r] by (simp only: keep)
    have total: "allowedInSpan s W (zip (now # ts) (fst (checkLimits rq i L W (now # ts))))
        = (if fst (checkLimit rq i L W now) \<and> s \<le> now then 1 else 0) + ?rest"
      using True by (simp add: checkLimits_Cons allowedInSpan_Cons)
    show ?thesis
    proof (cases "int (length ?r) < L")
      case allowed: True
      have st: "stored ?rq i = ?r @ [now]" using allowed by (simp add: checkLimit_stored)
      have "length (filter (\<lambda>x. s \<le> x) (stored ?rq i))
          = length (filter (\<lambda>x. s \<le> x) (stored rq i)) + (if s \<le> now then 1 else 0)"
        by (simp add: st keep del: filter_filter)
      with IH allowed m_le total show ?thesis by (simp split: if_splits)
    next
      case rejected: False
      have st: "stored ?rq i = ?r" using rejected by (simp add: checkLimit_stored)
      have ok: "\<not> fst (checkLimit rq i L W now)" using rejected by (simp add: checkLimit_fst)
      from IH show ?thesis by (simp add: total ok st keep del: filter_filter)
    qed
  qed
qed

subsection \<open>A burst of calls inside one window\<close>

lemma burst_answers:
  assumes "\<forall>t \<in> set ts. \<forall>x \<in> set (stored rq i). t < x + W"
    and "\<forall>t \<in> set ts. \<forall>t' \<in> set ts. t < t' + W"
    and "k < length ts"
  shows "fst (checkLimits rq i L W ts) ! k = (int (length (stored rq i)) + int k < L)"
  using assms
proof (induction ts arbitrary: rq k)
  case Nil
  then show ?case by simp
next
  case (Cons now ts)
  let ?rq = "snd (checkLimit rq i L W now)"
  have keep: "filter (\<lambda>x. now - W < x) (stored rq i) = stored rq i"
    using Cons.prems(1) by (auto simp: filter_id_conv)
  have first: "fst (checkLimit rq i L W now) = (int (length (stored rq i)) < L)"
    by (simp add: checkLimit_fst keep)
  have st: "stored ?rq i =
      (if int (length (stored rq i)) < L then stored rq i @ [now] else stored rq i)"
    by (simp add: checkLimit_stored keep)
  show ?case
  proof (cases k)
    case 0
    then show ?thesis by (simp add: checkLimits_Cons first)
  next
    case (Suc k')
    have a: "\<forall>t \<in> set ts. \<forall>x \<in> set (stored ?rq i). t < x + W"
      using Cons.prems(1,2) by (auto simp: st)
    have b: "\<forall>t \<in> set ts. \<forall>t' \<in> set ts. t < t' + W"
      using Cons.prems(2) by auto
    have c: "k' < length ts" using Cons.prems(3) Suc by simp
    have "fst (checkLimits ?rq i L W ts) ! k' = (int (length (stored ?rq i)) + int k' < L)"
      using Cons.IH [OF a b c] .
    then show ?thesis using Suc by (auto simp: checkLimits_Cons st)
  qed
qed

lemma burst_after_quiet:
  assumes quiet: "\<forall>x \<in> set (stored rq i). x + W \<le> hd ts"
    and span: "\<forall>t \<in> set ts. hd ts \<le> t \<and> t < hd ts + W"
    and k: "k < length ts"
  shows "fst (checkLimits rq i L W ts) ! k = (int k < L)"
proof (cases ts)
  case Nil
  with k show ?thesis by simp
next
  case (Cons now rest)
  let ?rq = "snd (checkLimit rq i L W now)"
  have gone: "filter (\<lambda>x. now - W < x) (stored rq i) = []"
    using quiet Cons by (auto simp: filter_empty_conv)
  have first: "fst (checkLimit rq i L W now) = (0 < L)"
    by (simp add: checkLimit_fst gone)
  have st: "stored ?rq i = (if 0 < L then [now] else [])"
    by (simp add: checkLimit_stored gone)
  show ?thesis
  proof (cases k)
    case 0
    then show ?thesis by (simp add: Cons checkLimits_Cons first)
  next
    case (Suc k')
    have a: "\<forall>t \<in> set rest. \<forall>x \<in> set (stored ?rq i). t < x + W"
      using span Cons by (auto simp: st)
    have b: "\<forall>t \<in> set rest. \<forall>t' \<in> set rest. t < t' + W"
    proof (intro ballI)
      fix t t' assume "t \<in> set rest" "t' \<in> set rest"
      with span Cons have "t < now + W" "now \<le> t'" by auto
      then show "t < t' + W" by linarith
    qed
    have c: "k' < length rest" using k Cons Suc by simp
    have "fst (checkLimits ?rq i L W rest) ! k' = (int (length (stored ?rq i)) + int k' < L)"
      using burst_answers [OF a b c] .
    then show ?thesis using Suc by (auto simp: Cons checkLimits_Cons st)
  qed
qed

subsection \<open>The stored list stays within the limit\<close>

lemma checkLimit_length:
  assumes "int (length (stored rq i)) \<le> L"
  shows "int (length (stored (snd (checkLimit rq i L W now)) i)) \<le> L"
proof -
  have "length (filter (\<lambda>x. now - W < x) (stored rq i)) \<le> length (stored rq i)"
    by (rule length_filter_le)
  with assms show ?thesis by (simp add: checkLimit_stored del: length_filter_le)
qed

lemma checkLimits_length:
  "int (length (stored rq i)) \<le> L \<Longrightarrow>
   int (length (stored (snd (checkLimits rq i L W ts)) i)) \<le> L"
proof (induction ts arbitrary: rq)
  case Nil
  then show ?case by simp
next
  case (Cons now ts)
  from Cons.IH [OF checkLimit_length [OF Cons.prems]]
  show ?case by (simp add: checkLimits_Cons)
qed

lemma checkLimit_recovers:
  assumes old: "x \<in> set (stored rq i)" and expired: "x + W \<le> now"
    and inv: "int (length (stored rq i)) \<le> L"
  shows "fst (checkLimit rq i L W now)"
proof -
  have "\<not> now - W < x" using expired by simp
  with old have "length (filter (\<lambda>x. now - W < x) (stored rq i)) < length (stored rq i)"
    by (rule length_filter_less)
  with inv show ?thesis by (simp add: checkLimit_fst)
qed

subsection \<open>Call sequences, cut at a call\<close>

lemma checkLimits_append:
  "checkLimits rq i L W (xs @ ys) =
     (fst (checkLimits rq i L W xs) @ fst (checkLimits (snd (checkLimits rq i L W xs)) i L W ys),
      snd (checkLimits (snd (checkLimits rq i L W xs)) i L W ys))"
  by (induction xs arbitrary: rq) (simp_all add: checkLimits_Cons)

lemma checkLimits_take_Suc:
  assumes "k < length ts"
  shows "snd (checkLimits rq i L W (take (Suc k) ts)) =
           snd (checkLimit (snd (checkLimits rq i L W (take k ts))) i L W (ts ! k))"
  using assms by (simp add: take_Suc_conv_app_nth checkLimits_append checkLimits_Cons)

lemma checkLimits_nth:
  assumes "k < length ts"
  shows "fst (checkLimits rq i L W ts) ! k =
           fst (checkLimit (snd (checkLimits rq i L W (take k ts))) i L W (ts ! k))"
proof -
  have split: "take k ts @ ts ! k # drop (Suc k) ts = ts"
    using id_take_nth_drop [OF assms] by (rule sym)
  have "fst (checkLimits rq i L W (take k ts @ ts ! k # drop (Suc k) ts)) ! k =
      fst (checkLimit (snd (checkLimits rq i L W (take k ts))) i L W (ts ! k))"
    using assms
    by (simp add: checkLimits_append checkLimits_Cons nth_append length_checkLimits)
  then show ?thesis by (simp only: split)
qed

section \<open>The claims about the rate limiter\<close>

text \<open>
  C1 (sliding window). Calls \<open>checkLimit(i, L, W)\<close> are made at the clock readings
  \<open>ts\<close>, which do not decrease, on a limiter whose list for \<open>i\<close> holds at most \<open>L\<close>
  timestamps (a new limiter, or one used with the limit \<open>L\<close> so far). Then:
  \<^item> in every span of \<open>W\<close> milliseconds, \<open>s \<le> t < s + W\<close>, at most \<open>L\<close> calls are allowed;
  \<^item> when no recorded call is inside the window at the first call and all the calls fall
    in one span of \<open>W\<close> milliseconds, exactly the first \<open>L\<close> calls are allowed: the call
    number \<open>k\<close> (from 0) is allowed if and only if \<open>k < L\<close>, so the \<open>(L+1)\<close>-th is rejected;
  \<^item> afterwards, once \<open>W\<close> milliseconds have passed since a recorded allowed call (the
    oldest one in particular), the next call is allowed.
\<close>

theorem checkLimit_sliding_window:
  assumes mono: "sorted ts"
    and inv: "int (length (stored requests i)) \<le> L"
  shows "(\<forall>s. int (allowedInSpan s W (zip ts (fst (checkLimits requests i L W ts)))) \<le> L)
       \<and> ((\<forall>x \<in> set (stored requests i). x + W \<le> hd ts) \<and> (\<forall>t \<in> set ts. t < hd ts + W)
            \<longrightarrow> (\<forall>k < length ts. fst (checkLimits requests i L W ts) ! k = (int k < L)))
       \<and> (\<forall>x now. x \<in> set (stored (snd (checkLimits requests i L W ts)) i) \<and> x + W \<le> now
            \<longrightarrow> fst (checkLimit (snd (checkLimits requests i L W ts)) i L W now))"
proof (intro conjI allI impI)
  fix s
  have "int (allowedInSpan s W (zip ts (fst (checkLimits requests i L W ts))))
      \<le> max 0 (L - int (length (filter (\<lambda>x. s \<le> x) (stored requests i))))"
    using mono by (rule allowedInSpan_bound)
  also have "\<dots> \<le> L" using inv by simp
  finally show "int (allowedInSpan s W (zip ts (fst (checkLimits requests i L W ts)))) \<le> L" .
next
  fix k
  assume h: "(\<forall>x \<in> set (stored requests i). x + W \<le> hd ts) \<and> (\<forall>t \<in> set ts. t < hd ts + W)"
    and k: "k < length ts"
  from k have "ts \<noteq> []" by auto
  with mono have "\<forall>t \<in> set ts. hd ts \<le> t" by (cases ts) auto
  with h have span: "\<forall>t \<in> set ts. hd ts \<le> t \<and> t < hd ts + W" by blast
  from h have quiet: "\<forall>x \<in> set (stored requests i). x + W \<le> hd ts" by blast
  show "fst (checkLimits requests i L W ts) ! k = (int k < L)"
    using quiet span k by (rule burst_after_quiet)
next
  fix x now
  assume h: "x \<in> set (stored (snd (checkLimits requests i L W ts)) i) \<and> x + W \<le> now"
  have "int (length (stored (snd (checkLimits requests i L W ts)) i)) \<le> L"
    using inv by (rule checkLimits_length)
  with h show "fst (checkLimit (snd (checkLimits requests i L W ts)) i L W now)"
    using checkLimit_recovers by blast
qed

theorem checkLimit_sliding_window_witness:
  "sorted [0, 3, 5 :: int]
   \<and> int (length (stored Map.empty ''a'')) \<le> 2
   \<and> int (allowedInSpan 0 10 (zip [0, 3, 5] (fst (checkLimits Map.empty ''a'' 2 10 [0, 3, 5])))) \<le> 2
   \<and> fst (checkLimits Map.empty ''a'' 2 10 [0, 3, 5]) = [True, True, False]
   \<and> stored (snd (checkLimits Map.empty ''a'' 2 10 [0, 3, 5])) ''a'' = [0, 3]
   \<and> fst (checkLimit (snd (checkLimits Map.empty ''a'' 2 10 [0, 3, 5])) ''a'' 2 10 10)"
proof -
  have h1: "sorted [0, 3, 5 :: int]" by simp
  have h2: "int (length (stored Map.empty ''a'')) \<le> 2" by (simp add: stored_def)
  note T = checkLimit_sliding_window [OF h1 h2, of 10]
  have st: "stored (snd (checkLimits Map.empty ''a'' 2 10 [0, 3, 5])) ''a'' = [0, 3]"
    by (simp add: checkLimits_Cons checkLimit_def stored_def)
  have ans: "fst (checkLimits Map.empty ''a'' 2 10 [0, 3, 5]) = [True, True, False]"
    by (simp add: checkLimits_Cons checkLimit_def)
  from T have p1: "\<forall>s. int (allowedInSpan s 10 (zip [0, 3, 5] (fst (checkLimits Map.empty ''a'' 2 10 [0, 3, 5])))) \<le> 2"
    by (rule conjunct1)
  from T have p3: "\<forall>x now. x \<in> set (stored (snd (checkLimits Map.empty ''a'' 2 10 [0, 3, 5])) ''a'') \<and> x + 10 \<le> now
      \<longrightarrow> fst (checkLimit (snd (checkLimits Map.empty ''a'' 2 10 [0, 3, 5])) ''a'' 2 10 now)"
    by (rule conjunct2 [THEN conjunct2])
  have old: "(0::int) \<in> set (stored (snd (checkLimits Map.empty ''a'' 2 10 [0, 3, 5])) ''a'') \<and> (0::int) + 10 \<le> 10"
    by (simp add: st)
  from p3 old have again: "fst (checkLimit (snd (checkLimits Map.empty ''a'' 2 10 [0, 3, 5])) ''a'' 2 10 10)"
    by blast
  from p1 have span: "int (allowedInSpan 0 10 (zip [0, 3, 5] (fst (checkLimits Map.empty ''a'' 2 10 [0, 3, 5])))) \<le> 2"
    by (rule spec)
  from h1 h2 span ans st again show ?thesis by (intro conjI)
qed

text \<open>
  C10 (invariant of the stored list). Calls \<open>checkLimit(i, L, W)\<close> with a positive window
  are made at the clock readings \<open>ts\<close> (in any order) on a limiter whose list for \<open>i\<close> holds
  at most \<open>L\<close> timestamps. After the call number \<open>k\<close>, made at \<open>now = ts ! k\<close>: every stored
  timestamp is strictly newer than \<open>now - W\<close>; the list has at most \<open>L\<close> entries; when the
  call was rejected the list is the list before the call with the expired entries
  removed and nothing appended; when it was allowed, \<open>now\<close> is appended to that pruned list.
\<close>

theorem checkLimit_stored_invariant:
  assumes inv: "int (length (stored requests i)) \<le> L"
    and window: "0 < W"
    and k: "k < length ts"
    and before: "before = stored (snd (checkLimits requests i L W (take k ts))) i"
    and after: "after = stored (snd (checkLimits requests i L W (take (Suc k) ts))) i"
    and ok: "ok = fst (checkLimits requests i L W ts) ! k"
  shows "(\<forall>t \<in> set after. ts ! k - W < t)
       \<and> int (length after) \<le> L
       \<and> (\<not> ok \<longrightarrow> after = filter (\<lambda>t. ts ! k - W < t) before)
       \<and> (ok \<longrightarrow> after = filter (\<lambda>t. ts ! k - W < t) before @ [ts ! k])"
proof -
  let ?rq = "snd (checkLimits requests i L W (take k ts))"
  have a: "after = stored (snd (checkLimit ?rq i L W (ts ! k))) i"
    unfolding after using k by (simp only: checkLimits_take_Suc)
  have o: "ok = fst (checkLimit ?rq i L W (ts ! k))"
    unfolding ok using k by (simp only: checkLimits_nth)
  have len: "int (length after) \<le> L"
    unfolding after using inv by (rule checkLimits_length)
  have shape: "after = (if ok then filter (\<lambda>t. ts ! k - W < t) before @ [ts ! k]
                        else filter (\<lambda>t. ts ! k - W < t) before)"
    unfolding a o before by (simp only: checkLimit_stored checkLimit_fst)
  have new: "ts ! k - W < ts ! k" using window by simp
  have bound: "\<forall>t \<in> set after. ts ! k - W < t"
    unfolding shape using new by (cases ok) auto
  show ?thesis
  proof (intro conjI impI)
    show "\<forall>t \<in> set after. ts ! k - W < t" by (rule bound)
    show "int (length after) \<le> L" by (rule len)
    show "after = filter (\<lambda>t. ts ! k - W < t) before" if "\<not> ok"
      using shape that by simp
    show "after = filter (\<lambda>t. ts ! k - W < t) before @ [ts ! k]" if "ok"
      using shape that by simp
  qed
qed

theorem checkLimit_stored_invariant_witness:
  "int (length (stored Map.empty ''a'')) \<le> 2 \<and> (0::int) < 10 \<and> (2::nat) < length [0, 3, 5, 12 :: int]
   \<and> stored (snd (checkLimits Map.empty ''a'' 2 10 (take 2 [0, 3, 5, 12]))) ''a'' = [0, 3]
   \<and> fst (checkLimits Map.empty ''a'' 2 10 [0, 3, 5, 12]) ! 2 = False
   \<and> stored (snd (checkLimits Map.empty ''a'' 2 10 (take (Suc 2) [0, 3, 5, 12]))) ''a''
       = filter (\<lambda>t. [0, 3, 5, 12] ! 2 - 10 < t) [0, 3]
   \<and> int (length (stored (snd (checkLimits Map.empty ''a'' 2 10 (take (Suc 2) [0, 3, 5, 12]))) ''a'')) \<le> 2"
proof -
  have h1: "int (length (stored Map.empty ''a'')) \<le> 2" by (simp add: stored_def)
  have h2: "(0::int) < 10" by simp
  have h3: "(2::nat) < length [0, 3, 5, 12 :: int]" by simp
  have b: "stored (snd (checkLimits Map.empty ''a'' 2 10 (take 2 [0, 3, 5, 12]))) ''a'' = [0, 3]"
    by (simp add: checkLimits_Cons checkLimit_def stored_def)
  have o: "fst (checkLimits Map.empty ''a'' 2 10 [0, 3, 5, 12]) ! 2 = False"
    by (simp add: checkLimits_Cons checkLimit_def)
  note T = checkLimit_stored_invariant [OF h1 h2 h3 b [symmetric] refl o [symmetric]]
  from T h1 h2 h3 b o show ?thesis by blast
qed

section \<open>Properties of the dates\<close>

lemma div_bounds:
  fixes x n :: int
  assumes "0 < n"
  shows "n * (x div n) \<le> x" "x < n * (x div n) + n"
proof -
  have "x = n * (x div n) + x mod n" by simp
  moreover have "0 \<le> x mod n" "x mod n < n" using assms by simp_all
  ultimately show "n * (x div n) \<le> x" "x < n * (x div n) + n" by linarith+
qed

lemma div_step:
  fixes x n :: int
  assumes "0 < n"
  shows "(x + 1) div n = x div n + (if n dvd (x + 1) then 1 else 0)"
proof (cases "n dvd (x + 1)")
  case True
  then obtain k where k: "x + 1 = n * k" by (auto simp: dvd_def)
  have "x = n * (k - 1) + (n - 1)" using k by (simp add: algebra_simps)
  then have "x div n = k - 1"
    using assms by (intro int_div_pos_eq [where r = "n - 1"]) auto
  moreover have "(x + 1) div n = k" using k assms by simp
  ultimately show ?thesis using True by simp
next
  case False
  have b: "n * (x div n) \<le> x" "x < n * (x div n) + n" using div_bounds [OF assms] by auto
  have "x + 1 \<noteq> n * (x div n) + n"
  proof
    assume "x + 1 = n * (x div n) + n"
    then have "x + 1 = n * (x div n + 1)" by (simp add: algebra_simps)
    then have "n dvd (x + 1)" by simp
    with False show False by simp
  qed
  with b have "x + 1 = n * (x div n) + (x + 1 - n * (x div n))" "0 \<le> x + 1 - n * (x div n)"
     "x + 1 - n * (x div n) < n" by linarith+
  then have "(x + 1) div n = x div n" by (rule int_div_pos_eq)
  with False show ?thesis by simp
qed

lemma DayFromYear_next: "DayFromYear (y + 1) = DayFromYear y + DaysInYear y"
proof -
  have a: "(y + 1 - 1969) div 4 = (y - 1969) div 4 + (if y mod 4 = 0 then 1 else 0)"
    using div_step [of 4 "y - 1969"] by (simp add: mod_eq_0_iff_dvd algebra_simps) presburger
  have b: "(y + 1 - 1901) div 100 = (y - 1901) div 100 + (if y mod 100 = 0 then 1 else 0)"
  proof -
    have "(100 dvd (y - 1900)) = (100 dvd y)" by (rule dvd_diff_left_iff) simp
    then show ?thesis using div_step [of 100 "y - 1901"] by (simp add: mod_eq_0_iff_dvd)
  qed
  have c: "(y + 1 - 1601) div 400 = (y - 1601) div 400 + (if y mod 400 = 0 then 1 else 0)"
  proof -
    have "(400 dvd (y - 1600)) = (400 dvd y)" by (rule dvd_diff_left_iff) simp
    then show ?thesis using div_step [of 400 "y - 1601"] by (simp add: mod_eq_0_iff_dvd)
  qed
  have d: "y mod 400 = 0 \<Longrightarrow> y mod 100 = 0" "y mod 100 = 0 \<Longrightarrow> y mod 4 = 0"
    by (auto simp: mod_eq_0_iff_dvd elim!: dvdE)
  show ?thesis
    unfolding DayFromYear_def DaysInYear_def a b c using d by auto
qed

lemma DayFromYear_estimate:
  "146097 * (y - 1970) - 506 \<le> 400 * DayFromYear y"
  "400 * DayFromYear y \<le> 146097 * (y - 1970) + 589"
proof -
  define A where "A = (y - 1969) div 4"
  define B where "B = (y - 1901) div 100"
  define C where "C = (y - 1601) div 400"
  have a: "4 * A \<le> y - 1969" "y - 1969 < 4 * A + 4"
    unfolding A_def by (rule div_bounds, simp)+
  have b: "100 * B \<le> y - 1901" "y - 1901 < 100 * B + 100"
    unfolding B_def by (rule div_bounds, simp)+
  have c: "400 * C \<le> y - 1601" "y - 1601 < 400 * C + 400"
    unfolding C_def by (rule div_bounds, simp)+
  have D: "DayFromYear y = 365 * (y - 1970) + A - B + C"
    by (simp add: DayFromYear_def A_def B_def C_def)
  show "146097 * (y - 1970) - 506 \<le> 400 * DayFromYear y"
    unfolding D using a b c by (simp add: algebra_simps)
  show "400 * DayFromYear y \<le> 146097 * (y - 1970) + 589"
    unfolding D using a b c by (simp add: algebra_simps)
qed

lemma YearFromTime_correct:
  "DayFromYear (YearFromTime t) \<le> Day t \<and> Day t < DayFromYear (YearFromTime t + 1)"
proof -
  define d where "d = Day t"
  define y where "y = 1970 + (400 * d) div 146097"
  have k: "146097 * (y - 1970) \<le> 400 * d" "400 * d < 146097 * (y - 1970) + 146097"
  proof -
    have "146097 * ((400 * d) div 146097) \<le> 400 * d"
      "400 * d < 146097 * ((400 * d) div 146097) + 146097"
      by (rule div_bounds, simp)+
    then show "146097 * (y - 1970) \<le> 400 * d" "400 * d < 146097 * (y - 1970) + 146097"
      unfolding y_def by simp_all
  qed
  have lo: "DayFromYear (y - 1) \<le> d"
    using DayFromYear_estimate(2) [of "y - 1"] k by (simp add: algebra_simps)
  have hi: "d < DayFromYear (y + 2)"
    using DayFromYear_estimate(1) [of "y + 2"] k by (simp add: algebra_simps)
  have Y: "YearFromTime t = (if DayFromYear (y + 1) \<le> d then y + 1
         else if DayFromYear y \<le> d then y else y - 1)"
    by (simp add: YearFromTime_def Let_def d_def y_def)
  have two: "y + 1 + 1 = y + 2" by simp
  show ?thesis
    unfolding Y d_def [symmetric] using lo hi by (simp add: two)
qed


lemma MonthFromTime_range: "0 \<le> MonthFromTime t \<and> MonthFromTime t \<le> 11"
  by (simp add: MonthFromTime_def Let_def)

lemma DaysInYear_leapDays: "DaysInYear y = 365 + leapDays y"
  by (simp add: DaysInYear_def leapDays_def)

lemma MakeDate_shift: "MakeDate (Day t + n) (TimeWithinDay t) = t + n * msPerDay"
  by (simp add: MakeDate_def Day_def TimeWithinDay_def algebra_simps)

lemma MakeDay_same_month:
  "MakeDay (YearFromTime t) (MonthFromTime t) (DateFromTime t + n) = Day t + n"
proof -
  have "MonthFromTime t div 12 = 0" "MonthFromTime t mod 12 = MonthFromTime t"
    using MonthFromTime_range [of t] by simp_all
  then show ?thesis
    by (simp add: MakeDay_def DateFromTime_def DayWithinYear_def InLeapYear_def)
qed

lemma monthStart_next:
  assumes "0 \<le> m" "m < 11"
  shows "monthStart (m + 1) (leapDays y) = monthStart m (leapDays y) + DaysInMonth y m"
proof -
  from assms have "m = 0 \<or> m = 1 \<or> m = 2 \<or> m = 3 \<or> m = 4 \<or> m = 5 \<or> m = 6
    \<or> m = 7 \<or> m = 8 \<or> m = 9 \<or> m = 10" by presburger
  then show ?thesis by (elim disjE) (simp_all add: monthStart_def DaysInMonth_def)
qed

lemma MakeDay_next_month:
  "MakeDay (YearFromTime t) (MonthFromTime t + 1) (DateFromTime t)
     = Day t + DaysInMonth (YearFromTime t) (MonthFromTime t)"
proof (cases "MonthFromTime t = 11")
  case True
  have "(11 + 1 :: int) div 12 = 1" "(11 + 1 :: int) mod 12 = 0" by simp_all
  then show ?thesis
    using True
    by (simp add: MakeDay_def DateFromTime_def DayWithinYear_def InLeapYear_def
        DayFromYear_next DaysInYear_leapDays monthStart_def DaysInMonth_def)
next
  case False
  with MonthFromTime_range [of t] have r: "0 \<le> MonthFromTime t" "MonthFromTime t < 11"
    by simp_all
  then have "(MonthFromTime t + 1) div 12 = 0" "(MonthFromTime t + 1) mod 12 = MonthFromTime t + 1"
    by simp_all
  then show ?thesis
    by (simp add: MakeDay_def DateFromTime_def DayWithinYear_def InLeapYear_def
        monthStart_next [OF r])
qed

lemma setDate_shift:
  "setDate tz t (getDate tz t + n) = TimeClip (UTC tz (LocalTime tz t + n * msPerDay))"
  by (simp add: setDate_def getDate_def Let_def MakeDay_same_month MakeDate_shift)

lemma setMonth_next:
  "setMonth tz t (getMonth tz t + 1) =
     TimeClip (UTC tz (LocalTime tz t
       + DaysInMonth (YearFromTime (LocalTime tz t)) (MonthFromTime (LocalTime tz t)) * msPerDay))"
  by (simp add: setMonth_def getMonth_def Let_def MakeDay_next_month MakeDate_shift)

subsection \<open>The dates of the standard and the calendar agree\<close>

lemma shift_div:
  fixes a :: int
  shows "(a - 1968) div 4 = a div 4 - 492" "(a - 1900) div 100 = a div 100 - 19"
    "(a - 1600) div 400 = a div 400 - 4"
proof -
  have "(a + 4 * (- 492)) div 4 = - 492 + a div 4" by (rule div_mult_self2) simp
  then show "(a - 1968) div 4 = a div 4 - 492" by simp
  have "(a + 100 * (- 19)) div 100 = - 19 + a div 100" by (rule div_mult_self2) simp
  then show "(a - 1900) div 100 = a div 100 - 19" by simp
  have "(a + 400 * (- 4)) div 400 = - 4 + a div 400" by (rule div_mult_self2) simp
  then show "(a - 1600) div 400 = a div 400 - 4" by simp
qed

lemma daysBeforeYear_DayFromYear: "daysBeforeYear y = DayFromYear y"
proof -
  have a: "(y - 1969) div 4 = (y - 1) div 4 - 492"
    using shift_div(1) [of "y - 1"] by simp
  have b: "(y - 1901) div 100 = (y - 1) div 100 - 19"
    using shift_div(2) [of "y - 1"] by simp
  have c: "(y - 1601) div 400 = (y - 1) div 400 - 4"
    using shift_div(3) [of "y - 1"] by simp
  show ?thesis
    unfolding daysBeforeYear_def DayFromYear_def a b c by simp
qed


lemma mod_chain:
  fixes y :: int
  shows "y mod 400 = 0 \<Longrightarrow> y mod 100 = 0" "y mod 100 = 0 \<Longrightarrow> y mod 4 = 0"
  by (auto simp: mod_eq_0_iff_dvd elim!: dvdE)

lemma leapDays_leapYear: "leapDays y = (if leapYear y then 1 else 0)"
proof (cases "y mod 4 = 0")
  case False
  then show ?thesis by (simp add: leapDays_def DaysInYear_def leapYear_def)
next
  case four: True
  show ?thesis
  proof (cases "y mod 100 = 0")
    case False
    with four show ?thesis by (simp add: leapDays_def DaysInYear_def leapYear_def)
  next
    case hundred: True
    show ?thesis
    proof (cases "y mod 400 = 0")
      case False
      with four hundred show ?thesis by (simp add: leapDays_def DaysInYear_def leapYear_def)
    next
      case True
      with four hundred show ?thesis by (simp add: leapDays_def DaysInYear_def leapYear_def)
    qed
  qed
qed

lemma monthLengths_length [simp]: "length (monthLengths y) = 12"
  by (simp add: monthLengths_def)

lemma small_month:
  "mo < 12 \<Longrightarrow> mo = 0 \<or> mo = 1 \<or> mo = 2 \<or> mo = 3 \<or> mo = 4 \<or> mo = 5 \<or> mo = 6
     \<or> mo = 7 \<or> mo = 8 \<or> mo = 9 \<or> mo = 10 \<or> mo = (11::nat)"
  by presburger

lemma take_monthLengths:
  assumes "mo < 12"
  shows "sum_list (take mo (monthLengths y)) = monthStart (int mo) (leapDays y)"
  using small_month [OF assms]
  by (elim disjE) (simp_all add: monthLengths_def monthStart_def leapDays_leapYear take_Cons')

lemma nth_monthLengths:
  assumes "mo < 12"
  shows "monthLengths y ! mo = DaysInMonth y (int mo)"
  using small_month [OF assms]
  by (elim disjE) (simp_all add: monthLengths_def DaysInMonth_def leapDays_leapYear)

lemma civilDay_monthStart:
  "mo < 12 \<Longrightarrow> civilDay y mo d = DayFromYear y + monthStart (int mo) (leapDays y) + d - 1"
  by (simp add: civilDay_def daysBeforeYear_DayFromYear take_monthLengths)


lemma DayFromYear_mono:
  assumes "y \<le> y'"
  shows "DayFromYear y \<le> DayFromYear y'"
  using assms
proof (induction y' rule: int_ge_induct)
  case base
  show ?case by simp
next
  case (step i)
  have "0 \<le> DaysInYear i" by (simp add: DaysInYear_def)
  with step.IH show ?case by (simp add: DayFromYear_next)
qed

lemma YearFromTime_unique:
  assumes lo: "DayFromYear y \<le> Day t" and hi: "Day t < DayFromYear (y + 1)"
  shows "YearFromTime t = y"
proof (rule ccontr)
  assume ne: "YearFromTime t \<noteq> y"
  let ?Y = "YearFromTime t"
  from YearFromTime_correct [of t]
  have Ylo: "DayFromYear ?Y \<le> Day t" and Yhi: "Day t < DayFromYear (?Y + 1)" by simp_all
  from ne consider "?Y + 1 \<le> y" | "y + 1 \<le> ?Y" by linarith
  then show False
  proof cases
    case 1
    then have "DayFromYear (?Y + 1) \<le> DayFromYear y" by (rule DayFromYear_mono)
    with Yhi lo show False by linarith
  next
    case 2
    then have "DayFromYear (y + 1) \<le> DayFromYear ?Y" by (rule DayFromYear_mono)
    with hi Ylo show False by linarith
  qed
qed

lemma civil_within_year:
  assumes "validCivil y mo d tod"
  shows "0 \<le> monthStart (int mo) (leapDays y) + d - 1"
    and "monthStart (int mo) (leapDays y) + d - 1 < 365 + leapDays y"
proof -
  from assms have mo: "mo < 12" and d1: "1 \<le> d" and d2: "d \<le> monthLengths y ! mo"
    by (simp_all add: validCivil_def)
  from d1 d2 have d: "1 \<le> d" "d \<le> DaysInMonth y (int mo)"
    by (simp_all add: nth_monthLengths [OF mo])
  have l: "leapDays y = 0 \<or> leapDays y = 1" by (simp add: leapDays_def)
  show "0 \<le> monthStart (int mo) (leapDays y) + d - 1"
    using small_month [OF mo] d l by (elim disjE) (simp_all add: monthStart_def)
  show "monthStart (int mo) (leapDays y) + d - 1 < 365 + leapDays y"
    using small_month [OF mo] d l
    by (elim disjE) (simp_all add: monthStart_def DaysInMonth_def)
qed

lemma civilTime_Day:
  assumes "validCivil y mo d tod"
  shows "Day (civilTime y mo d tod) = civilDay y mo d"
    and "TimeWithinDay (civilTime y mo d tod) = tod"
proof -
  from assms have tod: "0 \<le> tod" "tod < msPerDay" by (simp_all add: validCivil_def)
  have pos: "0 < msPerDay" by (simp add: msPerDay_def)
  have eq: "civilTime y mo d tod = msPerDay * civilDay y mo d + tod"
    by (simp add: civilTime_def mult.commute)
  show "Day (civilTime y mo d tod) = civilDay y mo d"
    unfolding Day_def using eq tod by (rule int_div_pos_eq)
  show "TimeWithinDay (civilTime y mo d tod) = tod"
    unfolding TimeWithinDay_def using eq tod by (rule int_mod_pos_eq)
qed

lemma civilTime_Year:
  assumes v: "validCivil y mo d tod"
  shows "YearFromTime (civilTime y mo d tod) = y"
proof (rule YearFromTime_unique)
  from v have mo: "mo < 12" by (simp add: validCivil_def)
  have D: "Day (civilTime y mo d tod) = DayFromYear y + (monthStart (int mo) (leapDays y) + d - 1)"
    by (simp add: civilTime_Day(1) [OF v] civilDay_monthStart [OF mo])
  show "DayFromYear y \<le> Day (civilTime y mo d tod)"
    unfolding D using civil_within_year(1) [OF v] by simp
  show "Day (civilTime y mo d tod) < DayFromYear (y + 1)"
    unfolding D DayFromYear_next DaysInYear_leapDays using civil_within_year(2) [OF v] by simp
qed

lemma civilTime_DayWithinYear:
  assumes v: "validCivil y mo d tod"
  shows "DayWithinYear (civilTime y mo d tod) = monthStart (int mo) (leapDays y) + d - 1"
    and "InLeapYear (civilTime y mo d tod) = leapDays y"
proof -
  from v have mo: "mo < 12" by (simp add: validCivil_def)
  show "DayWithinYear (civilTime y mo d tod) = monthStart (int mo) (leapDays y) + d - 1"
    by (simp add: DayWithinYear_def civilTime_Year [OF v] civilTime_Day(1) [OF v]
        civilDay_monthStart [OF mo])
  show "InLeapYear (civilTime y mo d tod) = leapDays y"
    by (simp add: InLeapYear_def civilTime_Year [OF v])
qed

lemma civilTime_Month:
  assumes v: "validCivil y mo d tod"
  shows "MonthFromTime (civilTime y mo d tod) = int mo"
proof -
  from v have mo: "mo < 12" and d1: "1 \<le> d" and d2: "d \<le> monthLengths y ! mo"
    by (simp_all add: validCivil_def)
  from d1 d2 have d: "1 \<le> d" "d \<le> DaysInMonth y (int mo)"
    by (simp_all add: nth_monthLengths [OF mo])
  have l: "leapDays y = 0 \<or> leapDays y = 1" by (simp add: leapDays_def)
  show ?thesis
    unfolding MonthFromTime_def civilTime_DayWithinYear [OF v] Let_def
    using small_month [OF mo] d l
    by (elim disjE) (simp_all add: monthStart_def DaysInMonth_def)
qed

lemma civilTime_Date:
  assumes v: "validCivil y mo d tod"
  shows "DateFromTime (civilTime y mo d tod) = d"
  by (simp add: DateFromTime_def civilTime_DayWithinYear [OF v] civilTime_Month [OF v])

lemma sum_monthLengths: "sum_list (monthLengths y) = 365 + leapDays y"
  by (simp add: monthLengths_def leapDays_leapYear)

lemma civilDay_monthAfter:
  assumes mo: "mo < 12"
  shows "civilDay (fst (monthAfter (y, mo))) (snd (monthAfter (y, mo))) d
           = civilDay y mo d + monthLengths y ! mo"
proof (cases "mo = 11")
  case True
  have "sum_list (take 11 (monthLengths y)) + monthLengths y ! 11 = sum_list (monthLengths y)"
    by (simp add: monthLengths_def)
  then show ?thesis
    using True
    by (simp add: monthAfter_def civilDay_def daysBeforeYear_DayFromYear DayFromYear_next
        DaysInYear_leapDays sum_monthLengths)
next
  case False
  with mo have lt: "mo < length (monthLengths y)" by simp
  have "take (Suc mo) (monthLengths y) = take mo (monthLengths y) @ [monthLengths y ! mo]"
    using lt by (rule take_Suc_conv_app_nth)
  then show ?thesis using False by (simp add: monthAfter_def civilDay_def)
qed

lemma civilTime_monthAfter:
  assumes mo: "mo < 12"
  shows "civilTime (fst (monthAfter (y, mo))) (snd (monthAfter (y, mo))) d tod
           = civilTime y mo d tod + monthLengths y ! mo * msPerDay"
  by (simp add: civilTime_def civilDay_monthAfter [OF mo] algebra_simps)

lemma civilTime_rollover:
  assumes mo: "mo < 12"
  shows "civilTime y mo d tod
           = civilTime (fst (monthAfter (y, mo))) (snd (monthAfter (y, mo)))
               (d - monthLengths y ! mo) tod"
  by (simp add: civilTime_monthAfter [OF mo]) (simp add: civilTime_def civilDay_def algebra_simps)

text \<open>Every time value is the time of a valid calendar date.\<close>

lemma DayWithinYear_range:
  "0 \<le> DayWithinYear t \<and> DayWithinYear t < 365 + InLeapYear t"
  using YearFromTime_correct [of t]
  by (simp add: DayWithinYear_def InLeapYear_def DayFromYear_next DaysInYear_leapDays)

lemma civil_exists:
  "\<exists>y mo d tod. validCivil y mo d tod \<and> t = civilTime y mo d tod"
proof -
  let ?y = "YearFromTime t" and ?m = "MonthFromTime t" and ?d = "DateFromTime t"
  let ?mo = "nat ?m"
  have mr: "0 \<le> ?m" "?m \<le> 11" using MonthFromTime_range [of t] by simp_all
  then have mo: "?mo < 12" and im: "int ?mo = ?m" by simp_all
  have l: "InLeapYear t = leapDays ?y" by (simp add: InLeapYear_def)
  have l01: "leapDays ?y = 0 \<or> leapDays ?y = 1" by (simp add: leapDays_def)
  have dw: "0 \<le> DayWithinYear t" "DayWithinYear t < 365 + leapDays ?y"
    using DayWithinYear_range [of t] by (simp_all add: l)
  have d: "1 \<le> ?d \<and> ?d \<le> DaysInMonth ?y ?m"
    unfolding DateFromTime_def MonthFromTime_def Let_def l
    using dw l01 by (auto simp: monthStart_def DaysInMonth_def)
  have len: "monthLengths ?y ! ?mo = DaysInMonth ?y ?m"
    using nth_monthLengths [OF mo, of ?y] by (simp only: im)
  have valid: "validCivil ?y ?mo ?d (TimeWithinDay t)"
    unfolding validCivil_def len using d mo by (simp add: TimeWithinDay_def msPerDay_def)
  have "civilDay ?y ?mo ?d = Day t"
    unfolding civilDay_monthStart [OF mo] im
    by (simp add: DateFromTime_def DayWithinYear_def l)
  then have "civilTime ?y ?mo ?d (TimeWithinDay t) = t"
    by (simp add: civilTime_def Day_def TimeWithinDay_def)
  with valid show ?thesis by metis
qed

section \<open>Properties of the scheduler\<close>

lemma addActivity_fields [simp]:
  "webhooks (addActivity m ty msg) = webhooks m"
  "objects (addActivity m ty msg) = objects m"
  "schedules (addActivity m ty msg) = schedules m"
  "fetches (addActivity m ty msg) = fetches m"
  "awaiting (addActivity m ty msg) = awaiting m"
  by (simp_all add: addActivity_def Let_def)

lemma executeSchedule_call_fields [simp]:
  "webhooks (executeSchedule_call m r) = webhooks m"
  "objects (executeSchedule_call m r) = objects m"
  "schedules (executeSchedule_call m r) = schedules m"
  "activities (executeSchedule_call m r) = activities m"
  by (simp_all add: executeSchedule_call_def Let_def split: option.splits)

lemma executeSchedule_call_inFlight:
  "inFlight (executeSchedule_call m r) r' =
     inFlight m r' + (if r' = r \<and> find (\<lambda>w. wid w = webhookId (objects m r)) (webhooks m) \<noteq> None
                      then 1 else 0)"
  by (simp add: executeSchedule_call_def inFlight_def Let_def split: option.splits)

lemma tickOver_fields:
  "webhooks (tickOver now rs m) = webhooks m \<and> objects (tickOver now rs m) = objects m
   \<and> schedules (tickOver now rs m) = schedules m \<and> activities (tickOver now rs m) = activities m"
  by (induction rs arbitrary: m) (simp_all add: tickOver_def)

lemma tickOver_inFlight:
  "inFlight (tickOver now rs m) r =
     inFlight m r +
       (if active (objects m r) \<and> scheduleTime (objects m r) \<le> now
           \<and> find (\<lambda>w. wid w = webhookId (objects m r)) (webhooks m) \<noteq> None
        then count_list rs r else 0)"
proof (induction rs arbitrary: m)
  case Nil
  then show ?case by (simp add: tickOver_def)
next
  case (Cons a rs)
  have step: "tickOver now (a # rs) m =
      tickOver now rs (if active (objects m a) \<and> scheduleTime (objects m a) \<le> now
                       then executeSchedule_call m a else m)"
    by (simp add: tickOver_def)
  show ?case
    unfolding step by (auto simp: Cons.IH executeSchedule_call_inFlight)
qed


lemma tick_tickOver: "tick now m = tickOver now (schedules m) m"
  by (simp add: tick_def tickOver_def)

lemma tick_fields:
  "webhooks (tick now m) = webhooks m" "objects (tick now m) = objects m"
  "schedules (tick now m) = schedules m" "activities (tick now m) = activities m"
  by (simp_all add: tick_tickOver tickOver_fields)

lemma tick_inFlight:
  "inFlight (tick now m) r =
     inFlight m r +
       (if active (objects m r) \<and> scheduleTime (objects m r) \<le> now
           \<and> find (\<lambda>w. wid w = webhookId (objects m r)) (webhooks m) \<noteq> None
        then count_list (schedules m) r else 0)"
  by (simp add: tick_tickOver tickOver_inFlight)

lemma tickOver_awaiting_mono:
  "set (awaiting m) \<subseteq> set (awaiting (tickOver now rs m))"
proof (induction rs arbitrary: m)
  case Nil
  then show ?case by (simp add: tickOver_def)
next
  case (Cons a rs)
  have step: "tickOver now (a # rs) m =
      tickOver now rs (if active (objects m a) \<and> scheduleTime (objects m a) \<le> now
                       then executeSchedule_call m a else m)"
    by (simp add: tickOver_def)
  have "set (awaiting m) \<subseteq> set (awaiting (executeSchedule_call m a))"
    by (auto simp: executeSchedule_call_def Let_def split: option.splits)
  then show ?case
    unfolding step using Cons.IH by (auto split: if_splits)
qed

lemma tickOver_dispatches:
  assumes "r \<in> set rs" "active (objects m r)" "scheduleTime (objects m r) \<le> now"
    "find (\<lambda>w. wid w = webhookId (objects m r)) (webhooks m) = Some w"
  shows "\<lparr>p_schedule = r, p_webhook = w\<rparr> \<in> set (awaiting (tickOver now rs m))"
  using assms
proof (induction rs arbitrary: m)
  case Nil
  then show ?case by simp
next
  case (Cons a rs)
  let ?m = "if active (objects m a) \<and> scheduleTime (objects m a) \<le> now
            then executeSchedule_call m a else m"
  have step: "tickOver now (a # rs) m = tickOver now rs ?m"
    by (simp add: tickOver_def)
  show ?case
  proof (cases "a = r")
    case True
    have "\<lparr>p_schedule = r, p_webhook = w\<rparr> \<in> set (awaiting ?m)"
      using True Cons.prems by (simp add: executeSchedule_call_def Let_def)
    then show ?thesis unfolding step using tickOver_awaiting_mono by blast
  next
    case False
    with Cons.prems have "r \<in> set rs" by simp
    moreover have "active (objects ?m r)" "scheduleTime (objects ?m r) \<le> now"
      "find (\<lambda>w. wid w = webhookId (objects ?m r)) (webhooks ?m) = Some w"
      using Cons.prems by simp_all
    ultimately show ?thesis unfolding step by (rule Cons.IH)
  qed
qed

lemma tick_dispatches:
  assumes "r \<in> set (schedules m)" "active (objects m r)" "scheduleTime (objects m r) \<le> now"
    "find (\<lambda>w. wid w = webhookId (objects m r)) (webhooks m) = Some w"
  shows "\<lparr>p_schedule = r, p_webhook = w\<rparr> \<in> set (awaiting (tick now m))"
  unfolding tick_tickOver using assms by (rule tickOver_dispatches)

lemma resume_advances:
  assumes "response_ok st" "repeat (objects m (p_schedule p)) \<noteq> ''once''"
    "calculateNextSchedule tz (objects m (p_schedule p)) = Some (Some t)"
  shows "objects (executeSchedule_resume tz m p (Response st)) =
           (objects m)(p_schedule p := (objects m (p_schedule p))\<lparr>scheduleTime := t\<rparr>)"
    and "schedules (executeSchedule_resume tz m p (Response st)) = schedules m"
  using assms by (simp_all add: executeSchedule_resume_def Let_def)

lemma resume_unknown:
  assumes "response_ok st" "repeat (objects m (p_schedule p)) \<noteq> ''once''"
    "calculateNextSchedule tz (objects m (p_schedule p)) = None"
  shows "objects (executeSchedule_resume tz m p (Response st)) = objects m"
    and "schedules (executeSchedule_resume tz m p (Response st)) = schedules m"
    and "webhooks (executeSchedule_resume tz m p (Response st)) = webhooks m"
    and "activities (executeSchedule_resume tz m p (Response st)) =
           activities (addActivity m ''message_sent''
              (''Scheduled message sent via '' @ quoted (wname (p_webhook p))))"
  using assms by (simp_all add: executeSchedule_resume_def Let_def addActivity_def)

lemma resume_failed:
  assumes "res = FetchRejected \<or> (\<exists>st. res = Response st \<and> \<not> response_ok st)"
  shows "objects (executeSchedule_resume tz m p res) = objects m"
    and "schedules (executeSchedule_resume tz m p res) = schedules m"
    and "webhooks (executeSchedule_resume tz m p res) = webhooks m"
    and "activities (executeSchedule_resume tz m p res) =
           activities (addActivity m ''message_failed''
              (''Failed to send scheduled message via '' @ quoted (wname (p_webhook p))))"
  using assms by (auto simp: executeSchedule_resume_def Let_def addActivity_def)

lemma calculateNextSchedule_days:
  assumes "rep = repeat s" "rep = ''daily'' \<or> rep = ''weekly'' \<or> rep = ''monthly''"
  shows "calculateNextSchedule tz s =
           Some (TimeClip (UTC tz (LocalTime tz (scheduleTime s)
                    + recurrenceDays tz rep (scheduleTime s) * msPerDay)))"
  using assms
  by (auto simp: calculateNextSchedule_def recurrenceDays_def Let_def
        setDate_shift setMonth_next)

lemma calculateNextSchedule_null:
  "calculateNextSchedule tz s = None \<longleftrightarrow>
     repeat s \<noteq> ''daily'' \<and> repeat s \<noteq> ''weekly'' \<and> repeat s \<noteq> ''monthly''"
  by (simp add: calculateNextSchedule_def Let_def)

lemma calculateNextSchedule_monthly:
  assumes rep: "repeat s = ''monthly''"
    and v: "validCivil y mo d tod"
    and lt: "LocalTime tz (scheduleTime s) = civilTime y mo d tod"
  shows "calculateNextSchedule tz s =
           Some (TimeClip (UTC tz (civilTime (fst (monthAfter (y, mo)))
                                              (snd (monthAfter (y, mo))) d tod)))"
proof -
  from v have mo: "mo < 12" by (simp add: validCivil_def)
  have "calculateNextSchedule tz s =
      Some (setMonth tz (scheduleTime s) (getMonth tz (scheduleTime s) + 1))"
    using rep by (simp add: calculateNextSchedule_def Let_def)
  also have "setMonth tz (scheduleTime s) (getMonth tz (scheduleTime s) + 1) =
      TimeClip (UTC tz (civilTime y mo d tod + DaysInMonth y (int mo) * msPerDay))"
    by (simp add: setMonth_next lt civilTime_Year [OF v] civilTime_Month [OF v])
  also have "civilTime y mo d tod + DaysInMonth y (int mo) * msPerDay
      = civilTime (fst (monthAfter (y, mo))) (snd (monthAfter (y, mo))) d tod"
    by (simp add: civilTime_monthAfter [OF mo] nth_monthLengths [OF mo])
  finally show ?thesis .
qed

lemma calculateNextSchedule_daily_weekly:
  "repeat s = ''daily'' \<Longrightarrow> calculateNextSchedule tz s =
     Some (TimeClip (UTC tz (LocalTime tz (scheduleTime s) + msPerDay)))"
  "repeat s = ''weekly'' \<Longrightarrow> calculateNextSchedule tz s =
     Some (TimeClip (UTC tz (LocalTime tz (scheduleTime s) + 7 * msPerDay)))"
  using setDate_shift [of tz "scheduleTime s" 1] setDate_shift [of tz "scheduleTime s" 7]
  by (simp_all add: calculateNextSchedule_def Let_def)

section \<open>The claims about the scheduler\<close>

text \<open>
  C2, as stated, fails. The schedule of \<open>manager1\<close> is due at 10:30:00. The tick at
  10:31:00 dispatches it; nothing completes; the tick at 10:32:00 dispatches it again:
  two dispatches of the schedule are in flight and \<open>fetch\<close> was called twice.
\<close>

theorem tick_while_in_flight_counterexample:
  "inFlight (tick 1763029860000 (manager1 ''daily'' ''w1'')) 0 = 1
   \<and> inFlight (tick 1763029920000 (tick 1763029860000 (manager1 ''daily'' ''w1''))) 0 = 2
   \<and> fetches (tick 1763029920000 (tick 1763029860000 (manager1 ''daily'' ''w1''))) =
       [\<lparr>target = ''https://discord.com/api/webhooks/1/x'', content = ''hello''\<rparr>,
        \<lparr>target = ''https://discord.com/api/webhooks/1/x'', content = ''hello''\<rparr>]"
  by (simp add: tick_def executeSchedule_call_def inFlight_def manager1_def sched1_def hook1_def)

text \<open>
  C2, amended. \<open>startScheduleChecker\<close> and \<open>executeSchedule\<close> keep no in-flight flag. A tick
  starts a dispatch for every entry of the schedule list whose schedule is active and due
  and whose webhook exists, whether or not an earlier dispatch of that schedule is still
  in flight: the number of dispatches in flight for the schedule \<open>r\<close> grows by the number of
  its entries in the list (one, as a rule), and by nothing for any other schedule. So two
  ticks with no completion in between leave two more dispatches of the schedule in flight.
\<close>

theorem tick_ignores_in_flight:
  "inFlight (tick now m) r =
     inFlight m r +
       (if active (objects m r) \<and> scheduleTime (objects m r) \<le> now
           \<and> find (\<lambda>w. wid w = webhookId (objects m r)) (webhooks m) \<noteq> None
        then count_list (schedules m) r else 0)
   \<and> (active (objects m r) \<and> scheduleTime (objects m r) \<le> now \<and> now \<le> now'
        \<and> find (\<lambda>w. wid w = webhookId (objects m r)) (webhooks m) \<noteq> None
      \<longrightarrow> inFlight (tick now' (tick now m)) r = inFlight m r + 2 * count_list (schedules m) r)"
proof (intro conjI impI)
  show "inFlight (tick now m) r =
     inFlight m r +
       (if active (objects m r) \<and> scheduleTime (objects m r) \<le> now
           \<and> find (\<lambda>w. wid w = webhookId (objects m r)) (webhooks m) \<noteq> None
        then count_list (schedules m) r else 0)"
    by (rule tick_inFlight)
next
  assume h: "active (objects m r) \<and> scheduleTime (objects m r) \<le> now \<and> now \<le> now'
        \<and> find (\<lambda>w. wid w = webhookId (objects m r)) (webhooks m) \<noteq> None"
  then have first: "inFlight (tick now m) r = inFlight m r + count_list (schedules m) r"
    by (simp add: tick_inFlight)
  from h have "scheduleTime (objects m r) \<le> now'" by linarith
  with h have "inFlight (tick now' (tick now m)) r
      = inFlight (tick now m) r + count_list (schedules m) r"
    by (simp add: tick_inFlight [of now' "tick now m"] tick_fields)
  with first show "inFlight (tick now' (tick now m)) r = inFlight m r + 2 * count_list (schedules m) r"
    by simp
qed

theorem tick_ignores_in_flight_witness:
  "active (objects (manager1 ''weekly'' ''w1'') 0)
   \<and> scheduleTime (objects (manager1 ''weekly'' ''w1'') 0) \<le> 1763029860000
   \<and> (1763029860000::int) \<le> 1763029920000
   \<and> inFlight (manager1 ''weekly'' ''w1'') 0 = 0
   \<and> inFlight (tick 1763029920000 (tick 1763029860000 (manager1 ''weekly'' ''w1''))) 0 = 2"
proof -
  let ?m = "manager1 ''weekly'' ''w1''"
  have h: "active (objects ?m 0) \<and> scheduleTime (objects ?m 0) \<le> 1763029860000
      \<and> (1763029860000::int) \<le> 1763029920000
      \<and> find (\<lambda>w. wid w = webhookId (objects ?m 0)) (webhooks ?m) \<noteq> None"
    by (simp add: manager1_def sched1_def hook1_def)
  have z: "inFlight ?m 0 = 0" by (simp add: inFlight_def manager1_def)
  have c: "count_list (schedules ?m) 0 = 1" by (simp add: manager1_def)
  note T = tick_ignores_in_flight [of 1763029860000 ?m 0 1763029920000]
  from T h have "inFlight (tick 1763029920000 (tick 1763029860000 ?m)) 0
      = inFlight ?m 0 + 2 * count_list (schedules ?m) 0"
    by blast
  then have two: "inFlight (tick 1763029920000 (tick 1763029860000 ?m)) 0 = 2"
    by (simp add: z c)
  from h z two show ?thesis by blast
qed

text \<open>
  C3, as stated, fails for an execution whose dispatch fails. The daily schedule of
  \<open>manager1\<close> is dispatched by the tick at 10:31:00 and \<open>fetch\<close> rejects: the due time is
  still the old one, not the old one plus one day.
\<close>

theorem recurrence_every_execution_counterexample:
  "pending1 \<in> set (awaiting (tick 1763029860000 (manager1 ''daily'' ''w1'')))
   \<and> scheduleTime (objects (executeSchedule_resume utcZone
        (tick 1763029860000 (manager1 ''daily'' ''w1'')) pending1 FetchRejected) 0) = 1763029800000
   \<and> (1763029800000::int) \<noteq> 1763029800000 + 86400000"
  by (simp add: tick_def executeSchedule_call_def executeSchedule_resume_def
      manager1_def sched1_def hook1_def pending1_def)

text \<open>
  C3, amended. A listed schedule with the recurrence daily, weekly or monthly is active
  and due at \<open>T\<close>, its webhook exists, and the tick fires at any \<open>now\<close> with \<open>T \<le> now\<close>. Then
  the tick dispatches it. When the dispatch succeeds (a 2xx response) the new due time is
  \<open>T'\<close>, whatever \<open>now\<close> was: for daily and weekly, \<open>T\<close> moved by one day and by seven days of
  local time; for monthly, with \<open>T\<close> the day \<open>d\<close> of the month \<open>mo\<close> of the year \<open>y\<close> at the
  time \<open>tod\<close> in local time, the same day and time of the next calendar month (a day past
  the end of that month counts on into the month after). When the dispatch fails (a
  response that is not 2xx, or \<open>fetch\<close> rejects) the due time stays \<open>T\<close>. In a time zone
  with a fixed offset \<open>T'\<close> is \<open>T\<close> plus 24 hours, plus 7 times 24 hours, and plus 24 hours
  for each day of the month that holds \<open>T\<close>. (\<open>T'\<close> has to be a time value that a \<open>Date\<close>
  can hold.)
\<close>

theorem recurrence_from_previous_due_time:
  assumes listed: "r \<in> set (schedules m)"
    and act: "active (objects m r)"
    and T: "scheduleTime (objects m r) = T"
    and due: "T \<le> now"
    and found: "find (\<lambda>w. wid w = webhookId (objects m r)) (webhooks m) = Some w"
    and rep: "repeat (objects m r) = rep"
    and target:
      "(rep = ''daily'' \<and> T' = UTC tz (LocalTime tz T + msPerDay))
       \<or> (rep = ''weekly'' \<and> T' = UTC tz (LocalTime tz T + 7 * msPerDay))
       \<or> (rep = ''monthly'' \<and> validCivil y mo d tod \<and> LocalTime tz T = civilTime y mo d tod
            \<and> T' = UTC tz (civilTime (fst (monthAfter (y, mo))) (snd (monthAfter (y, mo))) d tod))"
    and range: "\<bar>T'\<bar> \<le> 8640000000000000"
    and p: "p = \<lparr>p_schedule = r, p_webhook = w\<rparr>"
  shows "p \<in> set (awaiting (tick now m))
       \<and> (response_ok st \<longrightarrow>
            scheduleTime (objects (executeSchedule_resume tz (tick now m) p (Response st)) r) = T')
       \<and> (\<not> response_ok st \<longrightarrow>
            scheduleTime (objects (executeSchedule_resume tz (tick now m) p (Response st)) r) = T)
       \<and> scheduleTime (objects (executeSchedule_resume tz (tick now m) p FetchRejected) r) = T
       \<and> ((\<forall>t b. tz t b = c) \<longrightarrow>
            (rep = ''daily'' \<longrightarrow> T' = T + msPerDay)
            \<and> (rep = ''weekly'' \<longrightarrow> T' = T + 7 * msPerDay)
            \<and> (rep = ''monthly'' \<longrightarrow> T' = T + monthLengths y ! mo * msPerDay))"
proof (intro conjI impI)
  let ?m = "tick now m"
  have obj: "objects ?m = objects m" by (rule tick_fields)
  show "p \<in> set (awaiting ?m)"
    unfolding p using listed act due found unfolding T [symmetric] by (rule tick_dispatches)
  have known: "rep = ''daily'' \<or> rep = ''weekly'' \<or> rep = ''monthly''"
    using target by blast
  have not_once: "repeat (objects ?m (p_schedule p)) \<noteq> ''once''"
    using known rep by (auto simp: obj p)
  have "calculateNextSchedule tz (objects m r) = Some (TimeClip T')"
    using target
  proof (elim disjE conjE)
    assume "rep = ''daily''" "T' = UTC tz (LocalTime tz T + msPerDay)"
    then show ?thesis
      using calculateNextSchedule_daily_weekly(1) [of "objects m r" tz] rep by (simp add: T)
  next
    assume "rep = ''weekly''" "T' = UTC tz (LocalTime tz T + 7 * msPerDay)"
    then show ?thesis
      using calculateNextSchedule_daily_weekly(2) [of "objects m r" tz] rep by (simp add: T)
  next
    assume mrep: "rep = ''monthly''" and v: "validCivil y mo d tod"
      and lt: "LocalTime tz T = civilTime y mo d tod"
      and t': "T' = UTC tz (civilTime (fst (monthAfter (y, mo))) (snd (monthAfter (y, mo))) d tod)"
    have r': "repeat (objects m r) = ''monthly''" using rep mrep by simp
    have lt': "LocalTime tz (scheduleTime (objects m r)) = civilTime y mo d tod"
      using lt by (simp add: T)
    show ?thesis
      using calculateNextSchedule_monthly [OF r' v lt'] by (simp add: t')
  qed
  also have "TimeClip T' = Some T'" using range by (simp add: TimeClip_def)
  finally have next_time: "calculateNextSchedule tz (objects ?m (p_schedule p)) = Some (Some T')"
    by (simp add: obj p)
  show "scheduleTime (objects (executeSchedule_resume tz ?m p (Response st)) r) = T'"
    if ok: "response_ok st"
    using resume_advances(1) [OF ok not_once next_time] by (simp add: p)
  show "scheduleTime (objects (executeSchedule_resume tz ?m p (Response st)) r) = T"
    if "\<not> response_ok st"
  proof -
    have "Response st = FetchRejected \<or> (\<exists>s. Response st = Response s \<and> \<not> response_ok s)"
      using that by simp
    from resume_failed(1) [OF this, of tz ?m p] show ?thesis by (simp add: obj T)
  qed
  show "scheduleTime (objects (executeSchedule_resume tz ?m p FetchRejected) r) = T"
  proof -
    have "FetchRejected = FetchRejected \<or> (\<exists>s. FetchRejected = Response s \<and> \<not> response_ok s)"
      by simp
    from resume_failed(1) [OF this, of tz ?m p] show ?thesis by (simp add: obj T)
  qed
next
  assume fixed: "\<forall>t b. tz t b = c" and "rep = ''daily''"
  with target show "T' = T + msPerDay" by (simp add: UTC_def LocalTime_def)
next
  assume fixed: "\<forall>t b. tz t b = c" and "rep = ''weekly''"
  with target show "T' = T + 7 * msPerDay" by (simp add: UTC_def LocalTime_def)
next
  assume fixed: "\<forall>t b. tz t b = c" and mrep: "rep = ''monthly''"
  with target have v: "validCivil y mo d tod" and lt: "LocalTime tz T = civilTime y mo d tod"
    and t': "T' = UTC tz (civilTime (fst (monthAfter (y, mo))) (snd (monthAfter (y, mo))) d tod)"
    by simp_all
  from v have mo: "mo < 12" by (simp add: validCivil_def)
  have "civilTime y mo d tod = T + c" using lt fixed by (simp add: LocalTime_def)
  then show "T' = T + monthLengths y ! mo * msPerDay"
    using fixed by (simp add: t' UTC_def civilTime_monthAfter [OF mo])
qed

theorem recurrence_from_previous_due_time_witness:
  "(0::nat) \<in> set (schedules (manager1 ''monthly'' ''w1''))
   \<and> active (objects (manager1 ''monthly'' ''w1'') 0)
   \<and> scheduleTime (objects (manager1 ''monthly'' ''w1'') 0) = 1763029800000
   \<and> (1763029800000::int) \<le> 1763033400000
   \<and> validCivil 2025 10 13 37800000
   \<and> LocalTime utcZone 1763029800000 = civilTime 2025 10 13 37800000
   \<and> monthAfter (2025, 10) = (2025, 11)
   \<and> civilTime 2025 11 13 37800000 = 1765621800000
   \<and> response_ok 204
   \<and> pending1 \<in> set (awaiting (tick 1763033400000 (manager1 ''monthly'' ''w1'')))
   \<and> scheduleTime (objects (executeSchedule_resume utcZone
          (tick 1763033400000 (manager1 ''monthly'' ''w1'')) pending1 (Response 204)) 0)
       = 1765621800000
   \<and> scheduleTime (objects (executeSchedule_resume utcZone
          (tick 1763033400000 (manager1 ''monthly'' ''w1'')) pending1 (Response 500)) 0)
       = 1763029800000
   \<and> scheduleTime (objects (executeSchedule_resume utcZone
          (tick 1763033400000 (manager1 ''monthly'' ''w1'')) pending1 FetchRejected) 0)
       = 1763029800000
   \<and> scheduleTime (objects (executeSchedule_resume utcZone
          (tick 1763033400000 (manager1 ''daily'' ''w1'')) pending1 (Response 204)) 0)
       = 1763029800000 + 86400000"
proof -
  let ?m = "manager1 ''monthly'' ''w1''"
  let ?n = "manager1 ''daily'' ''w1''"
  have h1: "(0::nat) \<in> set (schedules ?m)" by (simp add: manager1_def)
  have h2: "active (objects ?m 0)" by (simp add: manager1_def sched1_def)
  have h3: "scheduleTime (objects ?m 0) = 1763029800000" by (simp add: manager1_def sched1_def)
  have h4: "(1763029800000::int) \<le> 1763033400000" by simp
  have h5: "find (\<lambda>w. wid w = webhookId (objects ?m 0)) (webhooks ?m) = Some hook1"
    by (simp add: manager1_def sched1_def hook1_def)
  have h6: "repeat (objects ?m 0) = ''monthly''" by (simp add: manager1_def sched1_def)
  have v: "validCivil 2025 10 13 37800000" by code_simp
  have lt: "LocalTime utcZone 1763029800000 = civilTime 2025 10 13 37800000" by code_simp
  have ma: "monthAfter (2025, 10) = (2025, 11)" by (simp add: monthAfter_def)
  have ct: "civilTime 2025 11 13 37800000 = 1765621800000" by code_simp
  have t': "(1765621800000::int) = UTC utcZone (civilTime (fst (monthAfter (2025, 10)))
      (snd (monthAfter (2025, 10))) 13 37800000)"
    by (simp add: ma ct UTC_def utcZone_def)
  have h7: "(''monthly'' = ''daily'' \<and> (1765621800000::int) = UTC utcZone (LocalTime utcZone 1763029800000 + msPerDay))
       \<or> (''monthly'' = ''weekly'' \<and> (1765621800000::int) = UTC utcZone (LocalTime utcZone 1763029800000 + 7 * msPerDay))
       \<or> (''monthly'' = ''monthly'' \<and> validCivil 2025 10 13 37800000
            \<and> LocalTime utcZone 1763029800000 = civilTime 2025 10 13 37800000
            \<and> (1765621800000::int) = UTC utcZone (civilTime (fst (monthAfter (2025, 10)))
                 (snd (monthAfter (2025, 10))) 13 37800000))"
    using v lt t' by blast
  have h8: "\<bar>1765621800000 :: int\<bar> \<le> 8640000000000000" by simp
  have h9: "pending1 = \<lparr>p_schedule = 0, p_webhook = hook1\<rparr>" by (simp add: pending1_def)
  note M = recurrence_from_previous_due_time [OF h1 h2 h3 h4 h5 h6 h7 h8 h9]
  have ok: "response_ok 204" and bad: "\<not> response_ok 500" by (simp_all add: response_ok_def)
  from M have a: "pending1 \<in> set (awaiting (tick 1763033400000 ?m))" by (rule conjunct1)
  from M [of 204] ok have b: "scheduleTime (objects (executeSchedule_resume utcZone
          (tick 1763033400000 ?m) pending1 (Response 204)) 0) = 1765621800000"
    by blast
  from M [of 500] bad have c: "scheduleTime (objects (executeSchedule_resume utcZone
          (tick 1763033400000 ?m) pending1 (Response 500)) 0) = 1763029800000"
    by blast
  from M [of 204] have d: "scheduleTime (objects (executeSchedule_resume utcZone
          (tick 1763033400000 ?m) pending1 FetchRejected) 0) = 1763029800000"
    by blast
  have g1: "(0::nat) \<in> set (schedules ?n)" by (simp add: manager1_def)
  have g2: "active (objects ?n 0)" by (simp add: manager1_def sched1_def)
  have g3: "scheduleTime (objects ?n 0) = 1763029800000" by (simp add: manager1_def sched1_def)
  have g5: "find (\<lambda>w. wid w = webhookId (objects ?n 0)) (webhooks ?n) = Some hook1"
    by (simp add: manager1_def sched1_def hook1_def)
  have g6: "repeat (objects ?n 0) = ''daily''" by (simp add: manager1_def sched1_def)
  have g7: "(''daily'' = ''daily'' \<and> (1763029800000 + 86400000 :: int)
               = UTC utcZone (LocalTime utcZone 1763029800000 + msPerDay))
       \<or> (''daily'' = ''weekly'' \<and> (1763029800000 + 86400000 :: int)
               = UTC utcZone (LocalTime utcZone 1763029800000 + 7 * msPerDay))
       \<or> (''daily'' = ''monthly'' \<and> validCivil 2025 10 13 37800000
            \<and> LocalTime utcZone 1763029800000 = civilTime 2025 10 13 37800000
            \<and> (1763029800000 + 86400000 :: int) = UTC utcZone (civilTime (fst (monthAfter (2025, 10)))
                 (snd (monthAfter (2025, 10))) 13 37800000))"
    by (simp add: UTC_def LocalTime_def utcZone_def msPerDay_def)
  have g8: "\<bar>1763029800000 + 86400000 :: int\<bar> \<le> 8640000000000000" by simp
  note D = recurrence_from_previous_due_time [OF g1 g2 g3 h4 g5 g6 g7 g8 h9, of 204]
  from D ok have e: "scheduleTime (objects (executeSchedule_resume utcZone
          (tick 1763033400000 ?n) pending1 (Response 204)) 0) = 1763029800000 + 86400000"
    by blast
  from h1 h2 h3 h4 v lt ma ct ok a b c d e show ?thesis by (intro conjI)
qed

text \<open>
  A day past the end of the next month: from January 31st, 2025, the monthly recurrence
  goes to March 3rd.
\<close>

lemma monthly_rollover_example:
  "calculateNextSchedule utcZone
     \<lparr>sid = ''s'', webhookId = ''w'', message = ''m'', scheduleTime = 1738319400000,
      repeat = ''monthly'', sname = ''n'', active = True\<rparr> = Some (Some 1740997800000)
   \<and> (YearFromTime 1738319400000, MonthFromTime 1738319400000, DateFromTime 1738319400000)
       = (2025, 0, 31)
   \<and> (YearFromTime 1740997800000, MonthFromTime 1740997800000, DateFromTime 1740997800000)
       = (2025, 2, 3)
   \<and> civilTime 2025 0 31 37800000 = 1738319400000
   \<and> civilTime (fst (monthAfter (2025, 0))) (snd (monthAfter (2025, 0))) 31 37800000 = 1740997800000
   \<and> civilTime 2025 2 3 37800000 = 1740997800000"
  by code_simp

text \<open>
  C4, as stated, fails. The daily schedule of \<open>manager1\<close> is dispatched and the response
  has the status 500: the schedule is still active, and its due time is the old one, not
  the old one plus one day.
\<close>

theorem failed_dispatch_counterexample:
  "active (objects (executeSchedule_resume utcZone (tick 1763029860000 (manager1 ''daily'' ''w1''))
       pending1 (Response 500)) 0)
   \<and> scheduleTime (objects (executeSchedule_resume utcZone
       (tick 1763029860000 (manager1 ''daily'' ''w1'')) pending1 (Response 500)) 0) = 1763029800000
   \<and> (1763029800000::int) \<noteq> 1763029800000 + recurrenceDays utcZone ''daily'' 1763029800000 * msPerDay"
  by (simp add: executeSchedule_resume_def response_ok_def tick_fields manager1_def sched1_def
      recurrenceDays_def msPerDay_def)

text \<open>
  C4, amended. After a dispatch that fails (\<open>fetch\<close> rejects, or the response is not 2xx),
  whatever the recurrence: the schedule objects and the schedule list are unchanged, so
  the schedule stays listed and active with the same due time (the next tick dispatches
  it again); an activity \<open>message_failed\<close> is recorded, so that the dashboard's count of
  failed messages goes up by one while the activity log holds fewer than 100 entries.
\<close>

theorem failed_dispatch_leaves_schedule:
  assumes "res = FetchRejected \<or> (\<exists>st. res = Response st \<and> \<not> response_ok st)"
  shows "objects (executeSchedule_resume tz m p res) = objects m
       \<and> schedules (executeSchedule_resume tz m p res) = schedules m
       \<and> activities (executeSchedule_resume tz m p res) =
           activities (addActivity m ''message_failed''
              (''Failed to send scheduled message via '' @ quoted (wname (p_webhook p))))
       \<and> (length (activities m) < 100 \<longrightarrow>
            failedMessages (executeSchedule_resume tz m p res) = failedMessages m + 1)"
proof (intro conjI impI)
  note R = resume_failed [OF assms, of tz m p]
  show "objects (executeSchedule_resume tz m p res) = objects m" by (rule R)
  show "schedules (executeSchedule_resume tz m p res) = schedules m" by (rule R)
  show "activities (executeSchedule_resume tz m p res) =
           activities (addActivity m ''message_failed''
              (''Failed to send scheduled message via '' @ quoted (wname (p_webhook p))))"
    by (rule R)
  assume "length (activities m) < 100"
  then show "failedMessages (executeSchedule_resume tz m p res) = failedMessages m + 1"
    by (simp add: failedMessages_def R(4) addActivity_def Let_def)
qed

theorem failed_dispatch_leaves_schedule_witness:
  "objects (executeSchedule_resume utcZone (tick 1763029860000 (manager1 ''weekly'' ''w1''))
       pending1 (Response 500)) = objects (tick 1763029860000 (manager1 ''weekly'' ''w1''))
   \<and> schedules (executeSchedule_resume utcZone (tick 1763029860000 (manager1 ''weekly'' ''w1''))
       pending1 (Response 500)) = [0]
   \<and> failedMessages (executeSchedule_resume utcZone (tick 1763029860000 (manager1 ''weekly'' ''w1''))
       pending1 (Response 500)) = 1"
proof -
  let ?m = "tick 1763029860000 (manager1 ''weekly'' ''w1'')"
  have h: "Response 500 = FetchRejected \<or> (\<exists>st. Response 500 = Response st \<and> \<not> response_ok st)"
    by (simp add: response_ok_def)
  note T = failed_dispatch_leaves_schedule [OF h, of utcZone ?m pending1]
  have len: "length (activities ?m) < 100" by (simp add: tick_fields manager1_def)
  have f0: "failedMessages ?m = 0" by (simp add: failedMessages_def tick_fields manager1_def)
  have s0: "schedules ?m = [0]" by (simp add: tick_fields manager1_def)
  from T len f0 s0 show ?thesis by simp
qed

text \<open>
  C5, as stated, fails. The schedule of \<open>manager1 ''daily'' ''gone''\<close> refers to a webhook
  that does not exist. The tick that finds it due records nothing (no activity), starts
  no dispatch, and leaves the due time as it was.
\<close>

theorem missing_webhook_counterexample:
  "map wid (webhooks (manager1 ''daily'' ''gone'')) = [''w1'']
   \<and> webhookId (objects (manager1 ''daily'' ''gone'') 0) = ''gone''
   \<and> active (objects (manager1 ''daily'' ''gone'') 0)
   \<and> activities (tick 1763029860000 (manager1 ''daily'' ''gone'')) = []
   \<and> awaiting (tick 1763029860000 (manager1 ''daily'' ''gone'')) = []
   \<and> scheduleTime (objects (tick 1763029860000 (manager1 ''daily'' ''gone'')) 0) = 1763029800000
   \<and> (1763029800000::int) \<noteq> 1763029800000 + recurrenceDays utcZone ''daily'' 1763029800000 * msPerDay"
  by (simp add: tick_def executeSchedule_call_def manager1_def sched1_def hook1_def
      recurrenceDays_def msPerDay_def)

text \<open>
  C5, amended. When the webhook of a schedule is missing, \<open>executeSchedule\<close> returns at
  once: the state is unchanged, no network call is made and no dispatch is in flight for
  it after the tick. A tick never changes a schedule object, the schedule list or the
  activity log, so no outcome is recorded and the due time stays. When the webhook exists
  the call of \<open>fetch\<close> is made with its url, whatever its \<open>active\<close> flag says.
\<close>

theorem missing_webhook_is_skipped:
  "(find (\<lambda>w. wid w = webhookId (objects m r)) (webhooks m) = None \<longrightarrow>
      executeSchedule_call m r = m \<and> inFlight (tick now m) r = inFlight m r)
   \<and> objects (tick now m) = objects m
   \<and> schedules (tick now m) = schedules m
   \<and> activities (tick now m) = activities m
   \<and> (\<forall>w. find (\<lambda>w. wid w = webhookId (objects m r)) (webhooks m) = Some w \<longrightarrow>
        fetches (executeSchedule_call m r) =
          fetches m @ [\<lparr>target = url w, content = message (objects m r)\<rparr>])"
  by (simp add: tick_fields tick_inFlight executeSchedule_call_def Let_def)

theorem missing_webhook_is_skipped_witness:
  "executeSchedule_call (manager1 ''daily'' ''gone'') 0 = manager1 ''daily'' ''gone''
   \<and> inFlight (tick 1763029860000 (manager1 ''daily'' ''gone'')) 0 = 0
   \<and> activities (tick 1763029860000 (manager1 ''daily'' ''gone'')) = []
   \<and> fetches (executeSchedule_call
         ((manager1 ''daily'' ''w1'')\<lparr>webhooks := [hook1\<lparr>wactive := False\<rparr>]\<rparr>) 0)
       = [\<lparr>target = ''https://discord.com/api/webhooks/1/x'', content = ''hello''\<rparr>]"
proof -
  let ?m = "manager1 ''daily'' ''gone''"
  let ?n = "(manager1 ''daily'' ''w1'')\<lparr>webhooks := [hook1\<lparr>wactive := False\<rparr>]\<rparr>"
  have none: "find (\<lambda>w. wid w = webhookId (objects ?m 0)) (webhooks ?m) = None"
    by (simp add: manager1_def sched1_def hook1_def)
  have some: "find (\<lambda>w. wid w = webhookId (objects ?n 0)) (webhooks ?n)
      = Some (hook1\<lparr>wactive := False\<rparr>)"
    by (simp add: manager1_def sched1_def hook1_def)
  note A = missing_webhook_is_skipped [of ?m 0 1763029860000]
  note B = missing_webhook_is_skipped [of ?n 0 0]
  have a: "executeSchedule_call ?m 0 = ?m" using A none by blast
  have b: "inFlight (tick 1763029860000 ?m) 0 = 0"
    using A none by (simp add: inFlight_def manager1_def)
  have c: "activities (tick 1763029860000 ?m) = []" using A by (simp add: manager1_def)
  have d: "fetches (executeSchedule_call ?n 0)
       = [\<lparr>target = ''https://discord.com/api/webhooks/1/x'', content = ''hello''\<rparr>]"
    using B some by (simp add: manager1_def sched1_def hook1_def)
  from a b c d show ?thesis by (intro conjI)
qed

text \<open>
  C9, as stated, fails. The schedule of \<open>manager1 ''hourly'' ''w1''\<close> has a recurrence that
  is not known. After its dispatch succeeded it is still listed and active, and the next
  tick dispatches it again.
\<close>

theorem unknown_recurrence_counterexample:
  "schedules (executeSchedule_resume utcZone (tick 1763029860000 (manager1 ''hourly'' ''w1''))
       pending1 (Response 204)) = [0]
   \<and> active (objects (executeSchedule_resume utcZone (tick 1763029860000 (manager1 ''hourly'' ''w1''))
       pending1 (Response 204)) 0)
   \<and> inFlight (executeSchedule_resume utcZone (tick 1763029860000 (manager1 ''hourly'' ''w1''))
       pending1 (Response 204)) 0 = 0
   \<and> inFlight (tick 1763029920000 (executeSchedule_resume utcZone
       (tick 1763029860000 (manager1 ''hourly'' ''w1'')) pending1 (Response 204))) 0 = 1"
  by (simp add: tick_def executeSchedule_call_def executeSchedule_resume_def
      calculateNextSchedule_def addActivity_def response_ok_def inFlight_def
      manager1_def sched1_def hook1_def pending1_def)

text \<open>
  C9, amended. For a schedule whose recurrence is none of once, daily, weekly and monthly,
  \<open>calculateNextSchedule\<close> returns \<open>null\<close>, and a dispatch that succeeds changes neither the
  schedule objects nor the schedule list: the schedule stays listed and active with the
  same due time, and every later tick at which it is listed, active and due, with its
  webhook present, dispatches it again.
\<close>

theorem unknown_recurrence_stays_due:
  assumes unknown: "repeat (objects m (p_schedule p)) \<notin> set [''once'', ''daily'', ''weekly'', ''monthly'']"
    and ok: "response_ok st"
  shows "objects (executeSchedule_resume tz m p (Response st)) = objects m
       \<and> schedules (executeSchedule_resume tz m p (Response st)) = schedules m
       \<and> (\<forall>now w. p_schedule p \<in> set (schedules m) \<and> active (objects m (p_schedule p))
             \<and> scheduleTime (objects m (p_schedule p)) \<le> now
             \<and> find (\<lambda>w. wid w = webhookId (objects m (p_schedule p))) (webhooks m) = Some w
           \<longrightarrow> \<lparr>p_schedule = p_schedule p, p_webhook = w\<rparr>
                 \<in> set (awaiting (tick now (executeSchedule_resume tz m p (Response st)))))"
proof -
  let ?m = "executeSchedule_resume tz m p (Response st)"
  have not_once: "repeat (objects m (p_schedule p)) \<noteq> ''once''" using unknown by simp
  have null: "calculateNextSchedule tz (objects m (p_schedule p)) = None"
    using unknown by (simp add: calculateNextSchedule_null)
  note R = resume_unknown [OF ok not_once null]
  have "\<lparr>p_schedule = p_schedule p, p_webhook = w\<rparr> \<in> set (awaiting (tick now ?m))"
    if "p_schedule p \<in> set (schedules m) \<and> active (objects m (p_schedule p))
             \<and> scheduleTime (objects m (p_schedule p)) \<le> now
             \<and> find (\<lambda>w. wid w = webhookId (objects m (p_schedule p))) (webhooks m) = Some w"
    for now w
    using that by (intro tick_dispatches) (simp_all add: R)
  then show ?thesis using R(1,2) by blast
qed

theorem unknown_recurrence_stays_due_witness:
  "response_ok 204
   \<and> schedules (executeSchedule_resume utcZone (tick 1763029860000 (manager1 ''hourly'' ''w1''))
       pending1 (Response 204)) = [0]
   \<and> scheduleTime (objects (executeSchedule_resume utcZone (tick 1763029860000 (manager1 ''hourly'' ''w1''))
       pending1 (Response 204)) 0) = 1763029800000
   \<and> pending1 \<in> set (awaiting (tick 1763029920000 (executeSchedule_resume utcZone
       (tick 1763029860000 (manager1 ''hourly'' ''w1'')) pending1 (Response 204))))"
proof -
  let ?m = "tick 1763029860000 (manager1 ''hourly'' ''w1'')"
  have h1: "repeat (objects ?m (p_schedule pending1)) \<notin> set [''once'', ''daily'', ''weekly'', ''monthly'']"
    by (simp add: tick_fields manager1_def sched1_def)
  have h2: "response_ok 204" by (simp add: response_ok_def)
  note T = unknown_recurrence_stays_due [OF h1 h2, of utcZone]
  have pre: "p_schedule pending1 \<in> set (schedules ?m) \<and> active (objects ?m (p_schedule pending1))
       \<and> scheduleTime (objects ?m (p_schedule pending1)) \<le> 1763029920000
       \<and> find (\<lambda>w. wid w = webhookId (objects ?m (p_schedule pending1))) (webhooks ?m) = Some hook1"
    by (simp add: tick_fields manager1_def sched1_def hook1_def pending1_def)
  from T pre have again: "\<lparr>p_schedule = p_schedule pending1, p_webhook = hook1\<rparr>
      \<in> set (awaiting (tick 1763029920000 (executeSchedule_resume utcZone ?m pending1 (Response 204))))"
    by blast
  have same: "\<lparr>p_schedule = p_schedule pending1, p_webhook = hook1\<rparr> = pending1"
    by (simp add: pending1_def)
  from T have s: "schedules (executeSchedule_resume utcZone ?m pending1 (Response 204)) = [0]"
    by (simp add: tick_fields manager1_def)
  from T have t: "scheduleTime (objects (executeSchedule_resume utcZone ?m pending1 (Response 204)) 0)
      = 1763029800000"
    by (simp add: tick_fields manager1_def sched1_def)
  from h2 s t again show ?thesis unfolding same by (intro conjI)
qed

section \<open>The dispatcher\<close>

text \<open>
  What \<open>sendDiscordWebhook\<close> gives, by what the network does: the timeout error when
  nothing arrived within 10000 milliseconds; the transport error as it is; an error
  whose message holds the status when the response is not 2xx; the parsed body when the
  response is 2xx and its body is JSON; the error of \<open>response.json()\<close> when the
  response is 2xx and its body is not JSON; and nothing, for ever, when the response is
  2xx and the read of its body never settles.
\<close>

lemma sendDiscordWebhook_outcomes:
  "net u data = Hangs \<or> (\<exists>d r. net u data = Responds d r \<and> 10000 \<le> d)
      \<or> (\<exists>d e. net u data = Fails d e \<and> 10000 \<le> d) \<Longrightarrow>
   sendDiscordWebhook net u data =
     Some (Inl (JsError ''Error'' ''Request timeout - webhook took too long to respond''))"
  "net u data = Fails d e \<Longrightarrow> d < 10000 \<Longrightarrow> err_name e \<noteq> ''AbortError'' \<Longrightarrow>
   sendDiscordWebhook net u data = Some (Inl e)"
  "net u data = Responds d r \<Longrightarrow> d < 10000 \<Longrightarrow> \<not> http_ok (status r) \<Longrightarrow>
   sendDiscordWebhook net u data =
     Some (Inl (JsError ''Error'' (''HTTP '' @ decimal (status r) @ '': '' @ statusText r)))"
  "net u data = Responds d r \<Longrightarrow> d < 10000 \<Longrightarrow> http_ok (status r) \<Longrightarrow> json r = Parsed body \<Longrightarrow>
   sendDiscordWebhook net u data = Some (Inr body)"
  "net u data = Responds d r \<Longrightarrow> d < 10000 \<Longrightarrow> http_ok (status r) \<Longrightarrow> json r = ReadFails e \<Longrightarrow>
   err_name e \<noteq> ''AbortError'' \<Longrightarrow>
   sendDiscordWebhook net u data = Some (Inl e)"
  "net u data = Responds d r \<Longrightarrow> d < 10000 \<Longrightarrow> http_ok (status r) \<Longrightarrow> json r = ReadHangs \<Longrightarrow>
   sendDiscordWebhook net u data = None"
  by (auto simp: sendDiscordWebhook_def fetch_with_abort_def Let_def)

lemma decimal_examples: "decimal 404 = ''404'' \<and> decimal 0 = ''0'' \<and> decimal 500 = ''500''"
  by code_simp

text \<open>
  C6 does not hold of the code for every 2xx response. A Discord webhook answers a
  successful post with the status 204 and an empty body. \<open>response.ok\<close> holds, then
  \<open>response.json()\<close> rejects with a \<open>SyntaxError\<close>, the \<open>catch\<close> block rethrows it, and the
  callers report a failure with the response time 0.
\<close>

theorem sendDiscordWebhook_no_content_fails:
  "sendDiscordWebhook noContentNet ''https://discord.com/api/webhooks/1/x'' ''hello''
     = Some (Inl (JsError ''SyntaxError'' ''Unexpected end of JSON input''))
   \<and> http_ok 204
   \<and> map_option (\<lambda>sent. success (reportedOutcome sent 150))
        (sendDiscordWebhook noContentNet ''https://discord.com/api/webhooks/1/x'' ''hello'')
       = Some False"
  by (simp add: sendDiscordWebhook_def fetch_with_abort_def http_ok_def reportedOutcome_def
      noContentNet_def)

section \<open>The analytics queue\<close>

lemma flush_resume_enabled [simp]: "enabled (flush_resume a f w) = enabled a"
  by (simp add: flush_resume_def Let_def)

lemma flush_resume_failed_queue: "queue (flush_resume a f False) = events f @ queue a"
  by (simp add: flush_resume_def Let_def)

text \<open>
  C7 (retry order). \<open>flush\<close> on a queue that is not empty takes the whole queue as its
  batch \<open>f\<close> and leaves the queue empty. When the delivery of \<open>f\<close> fails, in any later state
  \<open>a2\<close> of the service (its queue holds the events tracked since), the queue becomes the
  batch, in its order and complete, followed by the queue of \<open>a2\<close>. An event \<open>e\<close> tracked
  after the failure comes last: in the queue, or, for an event that flushes at once, in
  the batch that this flush takes.
\<close>

theorem flush_failure_requeues:
  assumes nonempty: "queue a \<noteq> []"
    and batch: "f = last (flushing (flush a))"
    and e: "e = \<lparr>event = name, properties = props, timestamp = now\<rparr>"
    and later: "a3 = track (flush_resume a2 f False) name props now"
  shows "events f = queue a \<and> queue (flush a) = []
       \<and> queue (flush_resume a2 f False) = queue a @ queue a2
       \<and> (enabled a2 \<longrightarrow>
            (if name \<in> set [''error'', ''pageview'', ''webhook_created'']
             then queue a3 = [] \<and> events (last (flushing a3)) = queue a @ queue a2 @ [e]
             else queue a3 = queue a @ queue a2 @ [e]))"
proof -
  have f: "events f = queue a" using nonempty by (simp add: batch flush_def)
  have q: "queue (flush a) = []" using nonempty by (simp add: flush_def)
  have r: "queue (flush_resume a2 f False) = queue a @ queue a2"
    by (simp add: flush_resume_failed_queue f)
  have t: "if name \<in> set [''error'', ''pageview'', ''webhook_created'']
           then queue a3 = [] \<and> events (last (flushing a3)) = queue a @ queue a2 @ [e]
           else queue a3 = queue a @ queue a2 @ [e]" if "enabled a2"
    using that by (simp add: later e track_def flush_def r Let_def)
  from f q r t show ?thesis by blast
qed

theorem flush_failure_requeues_witness:
  "queue \<lparr>enabled = True, queue = [ev ''a'' 1, ev ''b'' 2], whm_analytics = [], flushing = []\<rparr> \<noteq> []
   \<and> queue (flush_resume
        \<lparr>enabled = True, queue = [ev ''c'' 3], whm_analytics = [],
         flushing = [\<lparr>events = [ev ''a'' 1, ev ''b'' 2], existing = []\<rparr>]\<rparr>
        \<lparr>events = [ev ''a'' 1, ev ''b'' 2], existing = []\<rparr> False)
       = [ev ''a'' 1, ev ''b'' 2, ev ''c'' 3]
   \<and> queue (track (flush_resume
        \<lparr>enabled = True, queue = [ev ''c'' 3], whm_analytics = [],
         flushing = [\<lparr>events = [ev ''a'' 1, ev ''b'' 2], existing = []\<rparr>]\<rparr>
        \<lparr>events = [ev ''a'' 1, ev ''b'' 2], existing = []\<rparr> False) ''d'' ''{}'' 4)
       = [ev ''a'' 1, ev ''b'' 2, ev ''c'' 3, ev ''d'' 4]"
proof -
  let ?a = "\<lparr>enabled = True, queue = [ev ''a'' 1, ev ''b'' 2], whm_analytics = [], flushing = []\<rparr>"
  let ?f = "\<lparr>events = [ev ''a'' 1, ev ''b'' 2], existing = []\<rparr>"
  let ?a2 = "\<lparr>enabled = True, queue = [ev ''c'' 3], whm_analytics = [], flushing = [?f]\<rparr>"
  have h1: "queue ?a \<noteq> []" by simp
  have h2: "?f = last (flushing (flush ?a))" by (simp add: flush_def)
  have h3: "ev ''d'' 4 = \<lparr>event = ''d'', properties = ''{}'', timestamp = 4\<rparr>" by (simp add: ev_def)
  note T = flush_failure_requeues [OF h1 h2 h3 refl, of ?a2]
  have en: "enabled ?a2" by simp
  have np: "''d'' \<notin> set [''error'', ''pageview'', ''webhook_created'']" by simp
  from T have r: "queue (flush_resume ?a2 ?f False) = [ev ''a'' 1, ev ''b'' 2, ev ''c'' 3]"
    by simp
  from T en np have t: "queue (track (flush_resume ?a2 ?f False) ''d'' ''{}'' 4)
      = [ev ''a'' 1, ev ''b'' 2, ev ''c'' 3, ev ''d'' 4]"
    by simp
  from h1 r t show ?thesis by (intro conjI)
qed

section \<open>The statistics\<close>

lemma recordOutcome_total: "totalCount (recordOutcome now st oc) = totalCount st + 1"
  by (simp add: recordOutcome_def Let_def)

lemma recordOutcome_sum:
  "real (totalCount (recordOutcome now st oc)) * averageResponseTimeMs (recordOutcome now st oc)
     = real (totalCount st) * averageResponseTimeMs st + responseTime oc"
  by (simp add: recordOutcome_def Let_def field_simps)

lemma recordAll_total: "totalCount (recordAll now st ocs) = totalCount st + length ocs"
  by (induction ocs arbitrary: st) (simp_all add: recordAll_def recordOutcome_total)

lemma recordAll_sum:
  "real (totalCount (recordAll now st ocs)) * averageResponseTimeMs (recordAll now st ocs)
     = real (totalCount st) * averageResponseTimeMs st + sum_list (map responseTime ocs)"
proof (induction ocs arbitrary: st)
  case Nil
  then show ?case by (simp add: recordAll_def)
next
  case (Cons oc ocs)
  have "recordAll now st (oc # ocs) = recordAll now (recordOutcome now st oc) ocs"
    by (simp add: recordAll_def)
  then show ?case using Cons.IH [of "recordOutcome now st oc"] recordOutcome_sum [of now st oc]
    by simp
qed

lemma recordAll_counts:
  "successCount (recordAll now st ocs) + failureCount (recordAll now st ocs)
     = successCount st + failureCount st + length ocs"
  by (induction ocs arbitrary: st) (simp_all add: recordAll_def recordOutcome_def Let_def)

text \<open>
  C8 (rolling average). With the incremental mean of \<open>recordOutcome\<close>, the average after
  recording any outcomes on empty statistics is the arithmetic mean of their response
  times; each record moves the average by \<open>(latency - avg) / totalCount\<close>, with the new
  total; the callers report the response time 0 for a failure and the measured time for
  a success; and the successful latencies 100, 200, 300 give the averages 100, 150 and
  200 after the first, second and third record.
\<close>

theorem rolling_average_is_mean:
  "averageResponseTimeMs (recordAll now emptyStats ocs)
      = sum_list (map responseTime ocs) / real (length ocs)
   \<and> averageResponseTimeMs (recordOutcome now st oc)
      = averageResponseTimeMs st
        + (responseTime oc - averageResponseTimeMs st) / real (totalCount (recordOutcome now st oc))
   \<and> responseTime (reportedOutcome (Inl err) elapsed) = 0
   \<and> responseTime (reportedOutcome (Inr response) elapsed) = elapsed
   \<and> averagesAfterEach now emptyStats
        [\<lparr>success = True, responseTime = 100\<rparr>, \<lparr>success = True, responseTime = 200\<rparr>,
         \<lparr>success = True, responseTime = 300\<rparr>] = [100, 150, 200]
   \<and> averageResponseTimeMs (recordAll now emptyStats
        [\<lparr>success = True, responseTime = 100\<rparr>, \<lparr>success = True, responseTime = 200\<rparr>,
         \<lparr>success = True, responseTime = 300\<rparr>]) = 200"
proof (intro conjI)
  have z: "totalCount emptyStats = 0" "averageResponseTimeMs emptyStats = 0"
    by (simp_all add: emptyStats_def)
  have n: "totalCount (recordAll now emptyStats ocs) = length ocs"
    by (simp add: recordAll_total z)
  have "real (length ocs) * averageResponseTimeMs (recordAll now emptyStats ocs)
      = sum_list (map responseTime ocs)"
    using recordAll_sum [of now emptyStats ocs] by (simp add: n z)
  moreover have "averageResponseTimeMs (recordAll now emptyStats ocs) = 0" if "ocs = []"
    using that by (simp add: recordAll_def emptyStats_def)
  ultimately show mean: "averageResponseTimeMs (recordAll now emptyStats ocs)
      = sum_list (map responseTime ocs) / real (length ocs)"
    by (cases "ocs = []") (simp_all add: field_simps)
  show "averageResponseTimeMs (recordOutcome now st oc)
      = averageResponseTimeMs st
        + (responseTime oc - averageResponseTimeMs st) / real (totalCount (recordOutcome now st oc))"
    by (simp add: recordOutcome_def Let_def)
  show "responseTime (reportedOutcome (Inl err) elapsed) = 0"
    by (simp add: reportedOutcome_def)
  show "responseTime (reportedOutcome (Inr response) elapsed) = elapsed"
    by (simp add: reportedOutcome_def)
  show "averagesAfterEach now emptyStats
        [\<lparr>success = True, responseTime = 100\<rparr>, \<lparr>success = True, responseTime = 200\<rparr>,
         \<lparr>success = True, responseTime = 300\<rparr>] = [100, 150, 200]"
    by (simp add: recordOutcome_def emptyStats_def Let_def)
  show "averageResponseTimeMs (recordAll now emptyStats
        [\<lparr>success = True, responseTime = 100\<rparr>, \<lparr>success = True, responseTime = 200\<rparr>,
         \<lparr>success = True, responseTime = 300\<rparr>]) = 200"
    by (simp add: recordAll_def recordOutcome_def emptyStats_def Let_def)
qed

end
